theory Spec2Isabelle
  imports Complex_Main "HOL-Library.Log_Nat" "HOL-Library.AList" "HOL-Library.Sublist"
begin

section \<open>JavaScript values\<close>

subsection \<open>Numbers\<close>

text \<open>
  A JavaScript number is an IEEE 754 binary64 value. A finite one is carried as the
  rational it denotes (every finite double is a dyadic rational); the two infinities and
  NaN are separate constructors. The two zeros are identified: none of the scripts
  divides by zero or prints a sign of zero (\<open>String(-0)\<close> is \<open>"0"\<close>).
\<close>

datatype jsnum = Fin rat | PInf | NInf | NaN

definition pow2 :: "int \<Rightarrow> rat" where
  "pow2 e = (if 0 \<le> e then 2 ^ nat e else 1 / 2 ^ nat (- e))"

definition pow10 :: "int \<Rightarrow> rat" where
  "pow10 e = (if 0 \<le> e then 10 ^ nat e else 1 / 10 ^ nat (- e))"

definition round_half_even :: "rat \<Rightarrow> int" where
  "round_half_even x =
     (let f = \<lfloor>x\<rfloor>; d = x - of_int f
      in if d < 1 / 2 then f else if 1 / 2 < d then f + 1
         else if even f then f else f + 1)"

text \<open>\<open>floor_log2 a\<close> is the binary exponent of a positive rational: \<open>2^e \<le> a < 2^(e+1)\<close>.\<close>

definition floor_log2 :: "rat \<Rightarrow> int" where
  "floor_log2 a =
     (let (n, d) = quotient_of a; e0 = bitlen n - bitlen d
      in if pow2 e0 \<le> a then e0 else e0 - 1)"

text \<open>
  Rounding of an exact result to binary64, to nearest with ties to even: 53 bits of
  precision, smallest normal exponent \<open>-1022\<close> (below it the spacing stays \<open>2^-1074\<close>),
  overflow to an infinity once the rounded magnitude reaches \<open>2^1024\<close>.
\<close>

definition round_mag :: "rat \<Rightarrow> rat" where
  "round_mag a =
     (let u = pow2 (max (floor_log2 a) (- 1022) - 52)
      in of_int (round_half_even (a / u)) * u)"

definition round_binary64 :: "rat \<Rightarrow> jsnum" where
  "round_binary64 q =
     (if q = 0 then Fin 0
      else if 2 ^ 1024 \<le> round_mag \<bar>q\<bar> then (if 0 < q then PInf else NInf)
      else Fin (if 0 < q then round_mag \<bar>q\<bar> else - round_mag \<bar>q\<bar>))"

fun js_neg :: "jsnum \<Rightarrow> jsnum" where
  "js_neg (Fin a) = Fin (- a)"
| "js_neg PInf = NInf"
| "js_neg NInf = PInf"
| "js_neg NaN = NaN"

fun js_mul :: "jsnum \<Rightarrow> jsnum \<Rightarrow> jsnum" where
  "js_mul NaN _ = NaN"
| "js_mul _ NaN = NaN"
| "js_mul (Fin a) (Fin b) = round_binary64 (a * b)"
| "js_mul (Fin a) PInf = (if a = 0 then NaN else if 0 < a then PInf else NInf)"
| "js_mul (Fin a) NInf = (if a = 0 then NaN else if 0 < a then NInf else PInf)"
| "js_mul PInf (Fin b) = (if b = 0 then NaN else if 0 < b then PInf else NInf)"
| "js_mul NInf (Fin b) = (if b = 0 then NaN else if 0 < b then NInf else PInf)"
| "js_mul PInf PInf = PInf"
| "js_mul PInf NInf = NInf"
| "js_mul NInf PInf = NInf"
| "js_mul NInf NInf = PInf"

fun js_add :: "jsnum \<Rightarrow> jsnum \<Rightarrow> jsnum" where
  "js_add NaN _ = NaN"
| "js_add _ NaN = NaN"
| "js_add (Fin a) (Fin b) = round_binary64 (a + b)"
| "js_add (Fin a) PInf = PInf"
| "js_add (Fin a) NInf = NInf"
| "js_add PInf (Fin b) = PInf"
| "js_add NInf (Fin b) = NInf"
| "js_add PInf PInf = PInf"
| "js_add NInf NInf = NInf"
| "js_add PInf NInf = NaN"
| "js_add NInf PInf = NaN"

definition js_sub :: "jsnum \<Rightarrow> jsnum \<Rightarrow> jsnum" where
  "js_sub a b = js_add a (js_neg b)"

text \<open>The comparisons \<open><\<close>, \<open><=\<close> and \<open>===\<close> on numbers; every comparison with NaN is false.\<close>

fun js_lt :: "jsnum \<Rightarrow> jsnum \<Rightarrow> bool" where
  "js_lt NaN _ = False"
| "js_lt _ NaN = False"
| "js_lt (Fin a) (Fin b) = (a < b)"
| "js_lt (Fin a) PInf = True"
| "js_lt (Fin a) NInf = False"
| "js_lt PInf _ = False"
| "js_lt NInf NInf = False"
| "js_lt NInf _ = True"

definition js_eq :: "jsnum \<Rightarrow> jsnum \<Rightarrow> bool" where
  "js_eq a b = (a \<noteq> NaN \<and> a = b)"

definition js_le :: "jsnum \<Rightarrow> jsnum \<Rightarrow> bool" where
  "js_le a b = (js_lt a b \<or> js_eq a b)"

fun Math_abs :: "jsnum \<Rightarrow> jsnum" where
  "Math_abs (Fin a) = Fin \<bar>a\<bar>"
| "Math_abs PInf = PInf"
| "Math_abs NInf = PInf"
| "Math_abs NaN = NaN"

text \<open>\<open>Math.round\<close>: the nearest integer, a tie going towards \<open>+\<infinity>\<close>.\<close>

fun Math_round :: "jsnum \<Rightarrow> jsnum" where
  "Math_round (Fin a) = Fin (of_int \<lfloor>a + 1 / 2\<rfloor>)"
| "Math_round x = x"

fun isFinite :: "jsnum \<Rightarrow> bool" where
  "isFinite (Fin a) = True"
| "isFinite _ = False"

subsection \<open>Strings of digits\<close>

definition digit_char :: "nat \<Rightarrow> char" where
  "digit_char d = ''0123456789'' ! d"

fun dec_digits :: "nat \<Rightarrow> string" where
  "dec_digits n = (if n < 10 then [digit_char n]
                   else dec_digits (n div 10) @ [digit_char (n mod 10)])"

declare dec_digits.simps [simp del]

text \<open>
  The decimal digits of an integer, with a leading minus sign for a negative one.
\<close>

definition String_int :: "int \<Rightarrow> string" where
  "String_int n = (if n < 0 then CHR ''-'' # dec_digits (nat (- n)) else dec_digits (nat n))"

text \<open>
  \<open>String(x)\<close> for a number (\<open>Number::toString\<close>, radix 10) on the values that reach it in
  these scripts, which are integral. For a positive \<open>x\<close> it takes the digits \<open>s\<close>, their
  number \<open>k\<close> and the position \<open>n\<close> of the decimal point such that
  \<open>10^(k-1) \<le> s < 10^k\<close>, the double nearest to \<open>s * 10^(n-k)\<close> is \<open>x\<close>, and \<open>k\<close> is as
  small as possible; among several such \<open>s\<close> the one with \<open>s * 10^(n-k)\<close> closest to \<open>x\<close>
  (the even one on a tie). It prints the digits of \<open>s\<close> followed by \<open>n - k\<close> zeros when
  \<open>n \<le> 21\<close>, and in exponent notation otherwise. So an integer below \<open>2^53\<close> is printed
  with all its digits; above, digits that the double does not need are printed as zeros
  (\<open>2^64\<close> is \<open>18446744073709552000\<close>), and from \<open>10^21\<close> on the form is \<open>1.5e+21\<close>.

  \<open>digits_fit v k n s\<close> says that \<open>s\<close> with \<open>k\<close> digits and position \<open>n\<close> reads back as \<open>v\<close>.
  For a given \<open>k\<close> and \<open>n\<close> only the two multiples of \<open>10^(n-k)\<close> around \<open>v\<close> can be closest
  to it, and \<open>n\<close> differs by at most one from the number of digits of \<open>v\<close>. The search
  starts at one digit and ends at the latest with all the digits of \<open>v\<close>, which fit when
  \<open>v\<close> is a double (an integer that is no double is never printed).
\<close>

definition digits_fit :: "nat \<Rightarrow> nat \<Rightarrow> nat \<Rightarrow> nat \<Rightarrow> bool" where
  "digits_fit v k n s =
     (k \<le> n \<and> 10 ^ (k - 1) \<le> s \<and> s < 10 ^ k
      \<and> round_binary64 (of_nat (s * 10 ^ (n - k))) = Fin (of_nat v))"

definition candidates :: "nat \<Rightarrow> nat \<Rightarrow> (nat \<times> nat) list" where
  "candidates v k =
     (let n0 = length (dec_digits v)
      in filter (\<lambda>(s, n). digits_fit v k n s)
           (concat (map (\<lambda>n. [(v div 10 ^ (n - k), n), (v div 10 ^ (n - k) + 1, n)])
                        [n0 - 1, n0, n0 + 1])))"

definition closer :: "nat \<Rightarrow> nat \<Rightarrow> nat \<times> nat \<Rightarrow> nat \<times> nat \<Rightarrow> nat \<times> nat" where
  "closer v k c1 c2 =
     (let d1 = \<bar>int (fst c1 * 10 ^ (snd c1 - k)) - int v\<bar>;
          d2 = \<bar>int (fst c2 * 10 ^ (snd c2 - k)) - int v\<bar>
      in if d2 < d1 \<or> (d2 = d1 \<and> odd (fst c1) \<and> even (fst c2)) then c2 else c1)"

function shortest_from :: "nat \<Rightarrow> nat \<Rightarrow> nat \<times> nat \<times> nat" where
  "shortest_from v k =
     (if length (dec_digits v) < k then (v, length (dec_digits v), length (dec_digits v))
      else (case candidates v k of
              [] \<Rightarrow> shortest_from v (Suc k)
            | c # cs \<Rightarrow> (let (s, n) = foldl (closer v k) c cs in (s, n, k))))"
  by pat_completeness auto
termination
  by (relation "measure (\<lambda>(v, k). Suc (length (dec_digits v)) - k)") auto

declare shortest_from.simps [simp del]

definition digits_to_string :: "nat \<times> nat \<times> nat \<Rightarrow> string" where
  "digits_to_string snk =
     (case snk of (s, n, k) \<Rightarrow>
        if n \<le> 21 then dec_digits s @ replicate (n - k) (CHR ''0'')
        else (if k = 1 then dec_digits s
              else hd (dec_digits s) # CHR ''.'' # tl (dec_digits s))
             @ ''e+'' @ dec_digits (n - 1))"

fun Number_toString :: "jsnum \<Rightarrow> string" where
  "Number_toString (Fin a) =
     (if \<lfloor>a\<rfloor> = 0 then ''0''
      else (if \<lfloor>a\<rfloor> < 0 then ''-'' else [])
           @ digits_to_string (shortest_from (nat \<bar>\<lfloor>a\<rfloor>\<bar>) 1))"
| "Number_toString PInf = ''Infinity''"
| "Number_toString NInf = ''-Infinity''"
| "Number_toString NaN = ''NaN''"

declare Number_toString.simps(1) [simp del]

text \<open>\<open>s.padStart(w, c)\<close> for a one-character pad string.\<close>

definition padStart :: "nat \<Rightarrow> char \<Rightarrow> string \<Rightarrow> string" where
  "padStart w c s = replicate (w - length s) c @ s"

subsection \<open>Conversion of a string to a number\<close>

text \<open>
  \<open>Number(s)\<close> for a string (ECMAScript \<open>StringToNumber\<close>) on ASCII text: surrounding
  white space is dropped, the empty string is \<open>0\<close>, a binary, octal or hexadecimal
  integer literal or a signed decimal literal (with optional fraction and exponent, or
  \<open>Infinity\<close>) is its value rounded to binary64, and anything else is NaN.
\<close>

definition is_ws :: "char \<Rightarrow> bool" where
  "is_ws c = (of_char c \<in> {9, 10, 11, 12, 13, 32 :: nat})"

definition trim :: "string \<Rightarrow> string" where
  "trim s = rev (dropWhile is_ws (rev (dropWhile is_ws s)))"

definition is_digit :: "char \<Rightarrow> bool" where
  "is_digit c = (48 \<le> (of_char c :: nat) \<and> (of_char c :: nat) \<le> 57)"

definition digit_val :: "char \<Rightarrow> nat" where
  "digit_val c = of_char c - 48"

definition digits_val :: "string \<Rightarrow> nat" where
  "digits_val s = foldl (\<lambda>a c. 10 * a + digit_val c) 0 s"

definition radix_digit :: "char \<Rightarrow> nat option" where
  "radix_digit c =
     (let k = (of_char c :: nat)
      in if 48 \<le> k \<and> k \<le> 57 then Some (k - 48)
         else if 97 \<le> k \<and> k \<le> 102 then Some (k - 87)
         else if 65 \<le> k \<and> k \<le> 70 then Some (k - 55)
         else None)"

definition radix_val :: "nat \<Rightarrow> string \<Rightarrow> nat option" where
  "radix_val b s =
     (if s \<noteq> [] \<and> list_all (\<lambda>c. case radix_digit c of None \<Rightarrow> False | Some d \<Rightarrow> d < b) s
      then Some (foldl (\<lambda>a c. b * a + the (radix_digit c)) 0 s)
      else None)"

definition parse_nondecimal :: "string \<Rightarrow> nat option" where
  "parse_nondecimal s =
     (let p = take 2 s; r = drop 2 s
      in if p = ''0x'' \<or> p = ''0X'' then radix_val 16 r
         else if p = ''0o'' \<or> p = ''0O'' then radix_val 8 r
         else if p = ''0b'' \<or> p = ''0B'' then radix_val 2 r
         else None)"

definition parse_exponent :: "string \<Rightarrow> int option" where
  "parse_exponent s =
     (case s of
        [] \<Rightarrow> Some 0
      | c # t \<Rightarrow>
          if c = CHR ''e'' \<or> c = CHR ''E'' then
            (let neg = (take 1 t = ''-'');
                 ds = (if take 1 t = ''-'' \<or> take 1 t = ''+'' then drop 1 t else t)
             in if ds \<noteq> [] \<and> list_all is_digit ds
                then Some (if neg then - int (digits_val ds) else int (digits_val ds))
                else None)
          else None)"

definition parse_unsigned_decimal :: "string \<Rightarrow> jsnum option" where
  "parse_unsigned_decimal s =
     (if s = ''Infinity'' then Some PInf
      else
        let ip = takeWhile is_digit s;
            r1 = dropWhile is_digit s;
            dot = (take 1 r1 = ''.'');
            fp = (if dot then takeWhile is_digit (drop 1 r1) else []);
            r2 = (if dot then dropWhile is_digit (drop 1 r1) else r1)
        in if ip = [] \<and> fp = [] then None
           else (case parse_exponent r2 of
                   None \<Rightarrow> None
                 | Some e \<Rightarrow>
                     Some (round_binary64
                             (of_nat (digits_val (ip @ fp)) * pow10 (e - int (length fp))))))"

definition StringToNumber :: "string \<Rightarrow> jsnum" where
  "StringToNumber s =
     (let t = trim s
      in if t = [] then Fin 0
         else (case parse_nondecimal t of
                 Some v \<Rightarrow> round_binary64 (of_nat v)
               | None \<Rightarrow>
                   if take 1 t = ''-'' then
                     (case parse_unsigned_decimal (drop 1 t) of
                        Some v \<Rightarrow> js_neg v | None \<Rightarrow> NaN)
                   else if take 1 t = ''+'' then
                     (case parse_unsigned_decimal (drop 1 t) of
                        Some v \<Rightarrow> v | None \<Rightarrow> NaN)
                   else (case parse_unsigned_decimal t of
                           Some v \<Rightarrow> v | None \<Rightarrow> NaN)))"

subsection \<open>Field values read from JSON\<close>

text \<open>
  The value of a field of a parsed JSON object, as far as the scripts look at it:
  absent (\<open>undefined\<close>), \<open>null\<close>, a boolean, a number or a string. \<open>Number\<close> is the
  coercion \<open>Number(v)\<close>; \<open>nullish\<close> is \<open>v == null\<close>.
\<close>

datatype jsval = Undefined | Null | Bool bool | Num jsnum | Str string

fun Number :: "jsval \<Rightarrow> jsnum" where
  "Number Undefined = NaN"
| "Number Null = Fin 0"
| "Number (Bool b) = (if b then Fin 1 else Fin 0)"
| "Number (Num n) = n"
| "Number (Str s) = StringToNumber s"

fun nullish :: "jsval \<Rightarrow> bool" where
  "nullish Undefined = True"
| "nullish Null = True"
| "nullish _ = False"

section \<open>Data model\<close>

text \<open>
  A Point of \<open>points.json\<close> and a NormalsRecord of \<open>historical_weather.json\<close>. The id of
  a point is the string the scripts obtain with \<open>String(p.id)\<close>, the only way they read
  it. The id of a record is read both with \<open>rec.id == null\<close> and with \<open>String(rec.id)\<close>,
  so it is kept as the field is: absent, \<open>null\<close>, or a string. A \<open>legacy_id\<close> is only read
  through \<open>?? \<close> and \<open>!= null\<close>, which do not tell \<open>null\<close> from absent: \<open>None\<close> is either.
  A slot of \<open>hi\<close> or \<open>lo\<close> is a finite number or \<open>None\<close> for \<open>null\<close>.
\<close>

datatype id_field = IdUndefined | IdNull | IdString string

text \<open>\<open>String(rec.id)\<close>.\<close>

fun String_id :: "id_field \<Rightarrow> string" where
  "String_id IdUndefined = ''undefined''"
| "String_id IdNull = ''null''"
| "String_id (IdString s) = s"

record point =
  point_id :: string
  legacy_id :: "string option"
  mile :: jsval
  mile_est :: jsval
  lat :: jsval
  lon :: jsval
  state :: string

record nrec =
  rec_id :: id_field
  rec_legacy_id :: "string option"
  hi :: "rat option list"
  lo :: "rat option list"

text \<open>
  The two store files. A file is missing, is not JSON, or parses to a root value.
  \<open>points.json\<close> is a JSON array of points or something else. The root of
  \<open>historical_weather.json\<close> is a bare array of records, an object (with or without a
  \<open>meta\<close> object and with or without a \<open>points\<close> array), or no object at all. The
  \<open>meta\<close> object is an association list in key order.
\<close>

datatype 'a file_content = Missing | Unparsable | Parsed 'a

datatype points_json = PointsArray "point list" | PointsOther

type_synonym meta = "(string \<times> jsval) list"

datatype normals_json =
    RootArray "nrec list"
  | RootObject "meta option" "nrec list option"
  | RootOther

record disk =
  points_file :: "points_json file_content"
  normals_file :: "normals_json file_content"
  points_backups :: "points_json file_content list"
  normals_backups :: "normals_json file_content list"

datatype error =
    MissingFile string
  | JsonSyntaxError string
  | PointsNotArray
  | MissingMile string
  | BadMile jsnum
  | NoValidMile nat string
  | UnexpectedNormalsFormat
  | DuplicateId string string
  | NormalsWithoutId
  | NoMatchingPoint string
  | PointMissingLegacyId string
  | NoLegacyMatch string
  | HistNotObject
  | TypeError

definition POINTS_PATH :: string where
  "POINTS_PATH = ''trails/appalachian-trail/data/points.json''"

definition NORMALS_PATH :: string where
  "NORMALS_PATH = ''trails/appalachian-trail/data/historical_weather.json''"

section \<open>Identity codec (migrate-ids-at-main.js)\<close>

definition TRAIL_CODE :: string where "TRAIL_CODE = ''at''"
definition ALIGNMENT :: string where "ALIGNMENT = ''main''"
definition SCALE :: jsnum where "SCALE = Fin 1000"
definition PAD_WIDTH :: nat where "PAD_WIDTH = 7"

definition mileFromPoint :: "point \<Rightarrow> error + jsnum" where
  "mileFromPoint p =
     (let v = (if \<not> nullish (mile p) \<and> mile p \<noteq> Str [] then Number (mile p)
               else Number (mile_est p))
      in if \<not> isFinite v then Inl (MissingMile (point_id p)) else Inr v)"

definition mileToToken :: "jsnum \<Rightarrow> error + string" where
  "mileToToken m =
     (let n = Math_round (js_mul m SCALE)
      in if \<not> isFinite n then Inl (BadMile m)
         else Inr (padStart PAD_WIDTH (CHR ''0'') (Number_toString n)))"

definition toNewId :: "jsnum \<Rightarrow> error + string" where
  "toNewId m =
     (case mileToToken m of
        Inl e \<Rightarrow> Inl e
      | Inr tok \<Rightarrow> Inr (TRAIL_CODE @ ''-'' @ ALIGNMENT @ ''-mi'' @ tok))"

section \<open>Mile normalisation (normalize-points-mile-only.js)\<close>

definition normalizePoint :: "point \<Rightarrow> nat \<Rightarrow> error + point" where
  "normalizePoint pt idx =
     (let m = (if \<not> nullish (mile pt) \<and> mile pt \<noteq> Str [] \<and> isFinite (Number (mile pt))
               then Number (mile pt) else Number (mile_est pt))
      in if \<not> isFinite m then Inl (NoValidMile idx (point_id pt))
         else Inr (pt\<lparr>mile := Num m, mile_est := Undefined\<rparr>))"

section \<open>Migration of both stores (migrate-ids-at-main.js)\<close>

fun ensureUniqueIds_from :: "string list \<Rightarrow> string list \<Rightarrow> string \<Rightarrow> error + unit" where
  "ensureUniqueIds_from seen [] label = Inr ()"
| "ensureUniqueIds_from seen (i # ids) label =
     (if i \<in> set seen then Inl (DuplicateId label i)
      else ensureUniqueIds_from (i # seen) ids label)"

definition ensureUniqueIds :: "string list \<Rightarrow> string \<Rightarrow> error + unit" where
  "ensureUniqueIds ids label = ensureUniqueIds_from [] ids label"

datatype mode = rootArray | pointsArray

definition getNormalsArray :: "normals_json \<Rightarrow> error + (nrec list \<times> mode)" where
  "getNormalsArray normalsRoot =
     (case normalsRoot of
        RootArray arr \<Rightarrow> Inr (arr, rootArray)
      | RootObject m (Some arr) \<Rightarrow> Inr (arr, pointsArray)
      | _ \<Rightarrow> Inl UnexpectedNormalsFormat)"

text \<open>
  \<open>points.map(...)\<close> of \<open>main\<close>: every point gets its new id, keeps a \<open>legacy_id\<close> it
  already has, and the map \<open>legacyToNew\<close> is filled on the way. The first point
  without a usable mile stops the run.
\<close>

fun update_points ::
  "point list \<Rightarrow> (string \<rightharpoonup> string) \<Rightarrow> error + (point list \<times> (string \<rightharpoonup> string))" where
  "update_points [] legacyToNew = Inr ([], legacyToNew)"
| "update_points (p # ps) legacyToNew =
     (let legacyId = point_id p
      in case mileFromPoint p of
           Inl e \<Rightarrow> Inl e
         | Inr m \<Rightarrow>
             (case toNewId m of
                Inl e \<Rightarrow> Inl e
              | Inr newId \<Rightarrow>
                  (case update_points ps (legacyToNew(legacyId \<mapsto> newId)) of
                     Inl e \<Rightarrow> Inl e
                   | Inr (ps', m') \<Rightarrow>
                       Inr (p\<lparr>legacy_id := (case legacy_id p of
                                                None \<Rightarrow> Some legacyId | Some l \<Rightarrow> Some l),
                               point_id := newId\<rparr> # ps', m'))))"

text \<open>\<open>normalsArr.map(...)\<close> of \<open>main\<close>; \<open>!newId\<close> also holds for an empty string.\<close>

fun update_normals :: "(string \<rightharpoonup> string) \<Rightarrow> nrec list \<Rightarrow> error + nrec list" where
  "update_normals legacyToNew [] = Inr []"
| "update_normals legacyToNew (r # rs) =
     (if rec_id r = IdUndefined \<or> rec_id r = IdNull then Inl NormalsWithoutId
      else
        (let legacyId = String_id (rec_id r)
         in case legacyToNew legacyId of
              None \<Rightarrow> Inl (NoMatchingPoint legacyId)
            | Some newId \<Rightarrow>
                if newId = [] then Inl (NoMatchingPoint legacyId)
                else (case update_normals legacyToNew rs of
                        Inl e \<Rightarrow> Inl e
                      | Inr rs' \<Rightarrow>
                          Inr (r\<lparr>rec_legacy_id := (case rec_legacy_id r of
                                                       None \<Rightarrow> Some legacyId | Some l \<Rightarrow> Some l),
                                  rec_id := IdString newId\<rparr> # rs'))))"

definition migration_meta :: "meta option \<Rightarrow> meta" where
  "migration_meta m =
     AList.update ''id_migration_note'' (Str ''IDs migrated; legacy_id preserved'')
       (AList.update ''id_trail_code'' (Str TRAIL_CODE)
         (AList.update ''id_alignment'' (Str ALIGNMENT)
           (AList.update ''id_scale'' (Num SCALE)
             (AList.update ''id_format''
                (Str (TRAIL_CODE @ ''-'' @ ALIGNMENT @ ''-mi'' @ replicate PAD_WIDTH (CHR ''0'')
                      @ '' (mile*'' @ Number_toString SCALE @ '')''))
                (case m of None \<Rightarrow> [] | Some kvs \<Rightarrow> kvs)))))"

text \<open>
  Everything \<open>main\<close> computes before it touches the disk: the rewritten points and the
  rewritten root of the normals file, or the first error thrown.
\<close>

definition migrate_plan ::
  "points_json file_content \<Rightarrow> normals_json file_content \<Rightarrow> error + (point list \<times> normals_json)" where
  "migrate_plan pf nf =
     (if pf = Missing then Inl (MissingFile POINTS_PATH)
      else if nf = Missing then Inl (MissingFile NORMALS_PATH)
      else case pf of
        Missing \<Rightarrow> Inl (MissingFile POINTS_PATH)
      | Unparsable \<Rightarrow> Inl (JsonSyntaxError POINTS_PATH)
      | Parsed PointsOther \<Rightarrow> Inl PointsNotArray
      | Parsed (PointsArray points) \<Rightarrow>
          (case update_points points Map.empty of
             Inl e \<Rightarrow> Inl e
           | Inr (updatedPoints, legacyToNew) \<Rightarrow>
               (case ensureUniqueIds (map point_id updatedPoints) ''points'' of
                  Inl e \<Rightarrow> Inl e
                | Inr _ \<Rightarrow>
                    (case nf of
                       Missing \<Rightarrow> Inl (MissingFile NORMALS_PATH)
                     | Unparsable \<Rightarrow> Inl (JsonSyntaxError NORMALS_PATH)
                     | Parsed normalsRoot \<Rightarrow>
                         (case getNormalsArray normalsRoot of
                            Inl e \<Rightarrow> Inl e
                          | Inr (normalsArr, md) \<Rightarrow>
                              (case update_normals legacyToNew normalsArr of
                                 Inl e \<Rightarrow> Inl e
                               | Inr updatedNormalsArr \<Rightarrow>
                                   (case ensureUniqueIds
                                           (map (\<lambda>r. String_id (rec_id r)) updatedNormalsArr)
                                           ''normals'' of
                                      Inl e \<Rightarrow> Inl e
                                    | Inr _ \<Rightarrow>
                                        Inr (updatedPoints,
                                             (case normalsRoot of
                                                RootObject m _ \<Rightarrow>
                                                  RootObject (Some (migration_meta m))
                                                    (Some updatedNormalsArr)
                                              | _ \<Rightarrow> RootArray updatedNormalsArr)))))))))"

text \<open>
  \<open>main\<close>: once the plan has succeeded both files are copied to a backup and then
  overwritten. The closing report reads \<open>updatedPoints[0].legacy_id\<close>, which throws a
  TypeError when there is no point at all; by then both files have been written.
\<close>

definition migrate_main :: "disk \<Rightarrow> (error + unit) \<times> disk" where
  "migrate_main d =
     (case migrate_plan (points_file d) (normals_file d) of
        Inl e \<Rightarrow> (Inl e, d)
      | Inr (updatedPoints, updatedNormalsRoot) \<Rightarrow>
          (let d' = d\<lparr>points_backups := points_backups d @ [points_file d],
                       normals_backups := normals_backups d @ [normals_file d],
                       points_file := Parsed (PointsArray updatedPoints),
                       normals_file := Parsed updatedNormalsRoot\<rparr>
           in (if updatedPoints = [] then Inl TypeError else Inr (), d')))"

section \<open>Re-keying of the normals store (migrate-historical-ids-mixed.js)\<close>

text \<open>
  This script reads the ids from \<open>points.json\<close> as they are, rewrites only
  \<open>historical_weather.json\<close>, and records the file operations it performs in order.
\<close>

datatype io = ExistsSync string | ReadFile string | CopyFile string | WriteFile string

definition isNewId :: "string \<Rightarrow> bool" where
  "isNewId i = (take 10 i = ''at-main-mi'')"

fun build_maps ::
  "point list \<Rightarrow> (string \<rightharpoonup> string) \<Rightarrow> (string \<rightharpoonup> string)
     \<Rightarrow> error + ((string \<rightharpoonup> string) \<times> (string \<rightharpoonup> string))" where
  "build_maps [] legacyToNew newToLegacy = Inr (legacyToNew, newToLegacy)"
| "build_maps (p # ps) legacyToNew newToLegacy =
     (let newId = point_id p
      in case legacy_id p of
           None \<Rightarrow> Inl (PointMissingLegacyId newId)
         | Some legacyId \<Rightarrow>
             if legacyId = [] then Inl (PointMissingLegacyId newId)
             else build_maps ps (legacyToNew(legacyId \<mapsto> newId))
                    (newToLegacy(newId \<mapsto> legacyId)))"

definition rekey_record ::
  "(string \<rightharpoonup> string) \<Rightarrow> (string \<rightharpoonup> string) \<Rightarrow> nrec \<Rightarrow> error + nrec" where
  "rekey_record legacyToNew newToLegacy r =
     (let currentId = String_id (rec_id r)
      in if isNewId currentId then
           (let legacy = (case rec_legacy_id r of
                            None \<Rightarrow> newToLegacy currentId | Some l \<Rightarrow> Some l)
            in if legacy \<noteq> None \<and> legacy \<noteq> Some [] \<and> rec_legacy_id r = None
               then Inr (r\<lparr>rec_legacy_id := legacy, rec_id := IdString currentId\<rparr>)
               else Inr r)
         else (case legacyToNew currentId of
                 None \<Rightarrow> Inl (NoLegacyMatch currentId)
               | Some mapped \<Rightarrow>
                   if mapped = [] then Inl (NoLegacyMatch currentId)
                   else Inr (r\<lparr>rec_legacy_id := (case rec_legacy_id r of
                                                      None \<Rightarrow> Some currentId
                                                    | Some l \<Rightarrow> Some l),
                                 rec_id := IdString mapped\<rparr>)))"

fun rekey_records ::
  "(string \<rightharpoonup> string) \<Rightarrow> (string \<rightharpoonup> string) \<Rightarrow> nrec list \<Rightarrow> error + nrec list" where
  "rekey_records legacyToNew newToLegacy [] = Inr []"
| "rekey_records legacyToNew newToLegacy (r # rs) =
     (case rekey_record legacyToNew newToLegacy r of
        Inl e \<Rightarrow> Inl e
      | Inr r' \<Rightarrow>
          (case rekey_records legacyToNew newToLegacy rs of
             Inl e \<Rightarrow> Inl e
           | Inr rs' \<Rightarrow> Inr (r' # rs')))"

definition mixed_main :: "disk \<Rightarrow> (error + unit) \<times> disk \<times> io list" where
  "mixed_main d =
     (if points_file d = Missing
      then (Inl (MissingFile POINTS_PATH), d, [ExistsSync POINTS_PATH])
      else if normals_file d = Missing
      then (Inl (MissingFile NORMALS_PATH), d, [ExistsSync POINTS_PATH, ExistsSync NORMALS_PATH])
      else
        let t1 = [ExistsSync POINTS_PATH, ExistsSync NORMALS_PATH, ReadFile POINTS_PATH]
        in case points_file d of
             Missing \<Rightarrow> (Inl (MissingFile POINTS_PATH), d, t1)
           | Unparsable \<Rightarrow> (Inl (JsonSyntaxError POINTS_PATH), d, t1)
           | Parsed PointsOther \<Rightarrow> (Inl PointsNotArray, d, t1)
           | Parsed (PointsArray points) \<Rightarrow>
               (case build_maps points Map.empty Map.empty of
                  Inl e \<Rightarrow> (Inl e, d, t1)
                | Inr (legacyToNew, newToLegacy) \<Rightarrow>
                    (let t2 = t1 @ [ReadFile NORMALS_PATH]
                     in case normals_file d of
                          Parsed (RootObject m (Some recs)) \<Rightarrow>
                            (case rekey_records legacyToNew newToLegacy recs of
                               Inl e \<Rightarrow> (Inl e, d, t2)
                             | Inr updated \<Rightarrow>
                                 (Inr (),
                                  d\<lparr>normals_backups := normals_backups d @ [normals_file d],
                                    normals_file :=
                                      Parsed (RootObject
                                        (Some (AList.update ''id_migration_note''
                                           (Str ''Historical IDs normalized to at-main-mi...; legacy_id preserved/filled where possible.'')
                                           (case m of None \<Rightarrow> [] | Some kvs \<Rightarrow> kvs)))
                                        (Some updated))\<rparr>,
                                  t2 @ [CopyFile NORMALS_PATH, WriteFile NORMALS_PATH]))
                        | Unparsable \<Rightarrow> (Inl (JsonSyntaxError NORMALS_PATH), d, t2)
                        | _ \<Rightarrow> (Inl UnexpectedNormalsFormat, d, t2))))"
section \<open>Normals aggregator (generate-missing-normals-at.js)\<close>

text \<open>
  The network is an oracle: the outcome of the \<open>n\<close>-th request of a run, for the latitude
  and longitude asked. A request is rejected (no response at all) or answered with a
  status code, an optional \<open>Retry-After\<close> header and a body; the body is \<open>None\<close> when it
  is not JSON. Of a JSON body only \<open>daily\<close> is looked at.
\<close>

record daily =
  time :: "string list"
  temperature_2m_max :: "jsval list"
  temperature_2m_min :: "jsval list"

datatype fetch_outcome =
    Rejected
  | Response nat "string option" "daily option option"

type_synonym network = "nat \<Rightarrow> jsnum \<Rightarrow> jsnum \<Rightarrow> fetch_outcome"

datatype fetch_error =
    FetchFailed
  | HttpError nat
  | BodyNotJson
  | NoDailyTime
  | RetryExhausted
  | NoResponse

definition resp_ok :: "nat \<Rightarrow> bool" where
  "resp_ok st = (200 \<le> st \<and> st \<le> 299)"

text \<open>\<open>fetchDailyMaxMin\<close>: one request, and every response that is not \<open>ok\<close> is thrown.\<close>

definition fetchDailyMaxMin ::
  "network \<Rightarrow> nat \<Rightarrow> jsnum \<Rightarrow> jsnum \<Rightarrow> fetch_error + daily option" where
  "fetchDailyMaxMin net n la lo' =
     (case net n la lo' of
        Rejected \<Rightarrow> Inl FetchFailed
      | Response st ra body \<Rightarrow>
          if \<not> resp_ok st then Inl (HttpError st)
          else (case body of None \<Rightarrow> Inl BodyNotJson | Some data \<Rightarrow> Inr data))"

text \<open>
  The store as \<open>main\<close> holds it in memory after \<open>ensureHistShape\<close>. A nroot that is a JSON
  array passes the \<open>typeof hist === "object"\<close> test; it gets \<open>points\<close> and \<open>meta\<close> as
  extra properties, which \<open>JSON.stringify\<close> does not write: \<open>h_array\<close> keeps the array
  that is written back in that case.
\<close>

record hist =
  h_array :: "nrec list option"
  h_meta :: meta
  h_points :: "nrec list"

definition ensureHistShape :: "normals_json \<Rightarrow> error + hist" where
  "ensureHistShape nroot =
     (case nroot of
        RootOther \<Rightarrow> Inl HistNotObject
      | RootArray arr \<Rightarrow> Inr \<lparr>h_array = Some arr, h_meta = [], h_points = []\<rparr>
      | RootObject m ps \<Rightarrow>
          Inr \<lparr>h_array = None,
               h_meta = (case m of None \<Rightarrow> [] | Some kvs \<Rightarrow> kvs),
               h_points = (case ps of None \<Rightarrow> [] | Some rs \<Rightarrow> rs)\<rparr>)"

definition serialize_hist :: "hist \<Rightarrow> normals_json" where
  "serialize_hist h =
     (case h_array h of
        Some arr \<Rightarrow> RootArray arr
      | None \<Rightarrow> RootObject (Some (h_meta h)) (Some (h_points h)))"

definition missing_points :: "point list \<Rightarrow> nrec list \<Rightarrow> point list" where
  "missing_points points recs =
     filter (\<lambda>p. point_id p \<notin> set (map (\<lambda>r. String_id (rec_id r)) recs)) points"

definition START_DATE :: string where "START_DATE = ''2018-01-01''"
definition END_DATE :: string where "END_DATE = ''2024-12-31''"
definition DATASET :: string where "DATASET = ''ERA5-Land''"

definition progress_meta :: "meta \<Rightarrow> meta" where
  "progress_meta m =
     AList.update ''normals_dataset'' (Str DATASET)
       (AList.update ''normals_range'' (Str (START_DATE @ ''..'' @ END_DATE))
         (AList.update ''normals_source''
            (Str ''Open-Meteo Historical Weather API (daily max/min averaged by MM-DD)'') m))"

datatype outcome = Done nat | Exited fetch_error

text \<open>
  The loop of \<open>main\<close> over the points to process. \<open>avg\<close> stands for
  \<open>compute365AveragesFromDaily\<close> (the two 365-slot arrays of a response), \<open>n\<close> counts the
  requests made and \<open>processed\<close> the records written. A point without finite
  coordinates is skipped; a failed request ends the process with the disk as the last
  write left it; a completed record is pushed and the whole store is written at once.
\<close>

fun process_points ::
  "(daily \<Rightarrow> rat option list \<times> rat option list) \<Rightarrow> network \<Rightarrow> point list
     \<Rightarrow> nat \<Rightarrow> nat \<Rightarrow> hist \<Rightarrow> disk \<Rightarrow> outcome \<times> hist \<times> disk" where
  "process_points avg net [] n processed h d = (Done processed, h, d)"
| "process_points avg net (p # ps) n processed h d =
     (let legacyId = legacy_id p; la = Number (lat p); lo' = Number (lon p)
      in if \<not> isFinite la \<or> \<not> isFinite lo' then process_points avg net ps n processed h d
         else (case fetchDailyMaxMin net n la lo' of
                 Inl e \<Rightarrow> (Exited e, h, d)
               | Inr data \<Rightarrow>
                   (case data of
                      None \<Rightarrow> (Exited NoDailyTime, h, d)
                    | Some dl \<Rightarrow>
                        if time dl = [] then (Exited NoDailyTime, h, d)
                        else
                          (let r = \<lparr>rec_id = IdString (point_id p),
                                    rec_legacy_id = (if legacyId = Some [] then None else legacyId),
                                    hi = fst (avg dl), lo = snd (avg dl)\<rparr>;
                               h' = h\<lparr>h_points := h_points h @ [r],
                                      h_meta := progress_meta (h_meta h)\<rparr>;
                               d' = d\<lparr>normals_file := Parsed (serialize_hist h')\<rparr>
                           in process_points avg net ps (Suc n) (Suc processed) h' d'))))"

datatype 'a run = Failed error | Ran 'a

definition generate_main ::
  "(daily \<Rightarrow> rat option list \<times> rat option list) \<Rightarrow> network \<Rightarrow> disk \<Rightarrow> outcome run \<times> disk" where
  "generate_main avg net d =
     (if points_file d = Missing then (Failed (MissingFile POINTS_PATH), d)
      else if normals_file d = Missing then (Failed (MissingFile NORMALS_PATH), d)
      else case points_file d of
        Missing \<Rightarrow> (Failed (MissingFile POINTS_PATH), d)
      | Unparsable \<Rightarrow> (Failed (JsonSyntaxError POINTS_PATH), d)
      | Parsed PointsOther \<Rightarrow> (Failed PointsNotArray, d)
      | Parsed (PointsArray points) \<Rightarrow>
          (case normals_file d of
             Missing \<Rightarrow> (Failed (MissingFile NORMALS_PATH), d)
           | Unparsable \<Rightarrow> (Failed (JsonSyntaxError NORMALS_PATH), d)
           | Parsed nroot \<Rightarrow>
               (case ensureHistShape nroot of
                  Inl e \<Rightarrow> (Failed e, d)
                | Inr h \<Rightarrow>
                    (let toProcess = missing_points points (h_points h);
                         (out, h', d') = process_points avg net toProcess 0 0 h d
                     in (Ran out, d')))))"

text \<open>The records of the store on disk, as the next run will read them.\<close>

definition stored_records :: "disk \<Rightarrow> nrec list" where
  "stored_records d =
     (case normals_file d of
        Parsed (RootObject m (Some rs)) \<Rightarrow> rs
      | _ \<Rightarrow> [])"

text \<open>
  \<open>hist.points.map(p => String(p.id))\<close>, the ids of a list of records; the records that
  a run from disk \<open>d\<close> to disk \<open>d'\<close> has put behind those already stored; and the test
  of \<open>main\<close> on the coordinates of a point.
\<close>

definition record_ids :: "nrec list \<Rightarrow> string list" where
  "record_ids rs = map (\<lambda>r. String_id (rec_id r)) rs"

definition added_records :: "disk \<Rightarrow> disk \<Rightarrow> nrec list" where
  "added_records d d' = drop (length (stored_records d)) (stored_records d')"

definition valid_coordinates :: "point \<Rightarrow> bool" where
  "valid_coordinates p = (isFinite (Number (lat p)) \<and> isFinite (Number (lon p)))"

section \<open>Retrying requests (build_planning_normals.js and its resume script, both deprecated)\<close>

fun Math_min :: "jsnum \<Rightarrow> jsnum \<Rightarrow> jsnum" where
  "Math_min NaN _ = NaN"
| "Math_min _ NaN = NaN"
| "Math_min a b = (if js_lt b a then b else a)"

definition Math_pow2 :: "nat \<Rightarrow> jsnum" where
  "Math_pow2 n = round_binary64 (2 ^ n)"

definition retryable :: "nat \<Rightarrow> bool" where
  "retryable st = (st = 429 \<or> st = 502 \<or> st = 503)"

text \<open>
  The delay before the next attempt: the \<open>Retry-After\<close> header in seconds when it is
  present, not empty and converts to a positive finite number, the exponential
  back-off otherwise; in both cases at most \<open>maxDelayMs\<close>.
\<close>

definition retry_delay :: "string option \<Rightarrow> jsnum \<Rightarrow> jsnum \<Rightarrow> nat \<Rightarrow> jsnum" where
  "retry_delay ra baseDelayMs maxDelayMs attempt =
     (let backoff = js_mul baseDelayMs (Math_pow2 attempt);
          delay = (case ra of
                     None \<Rightarrow> backoff
                   | Some s \<Rightarrow> if s = [] then backoff else js_mul (StringToNumber s) (Fin 1000));
          delay' = (if \<not> isFinite delay \<or> js_le delay (Fin 0) then backoff else delay)
      in Math_min delay' maxDelayMs)"

text \<open>
  \<open>fetchWithRetry\<close>: the oracle gives the outcome of each attempt; the result comes with
  the delays slept, in order.
\<close>

function fetchWithRetry_from ::
  "(nat \<Rightarrow> fetch_outcome) \<Rightarrow> nat \<Rightarrow> jsnum \<Rightarrow> jsnum \<Rightarrow> nat
     \<Rightarrow> (fetch_error + daily option option) \<times> jsnum list" where
  "fetchWithRetry_from net maxRetries baseDelayMs maxDelayMs attempt =
     (if attempt \<le> maxRetries then
        (case net attempt of
           Rejected \<Rightarrow> (Inl FetchFailed, [])
         | Response st ra body \<Rightarrow>
             if resp_ok st then (Inr body, [])
             else if \<not> retryable st \<or> attempt = maxRetries then (Inl (HttpError st), [])
             else
               (let delay = retry_delay ra baseDelayMs maxDelayMs attempt;
                    (res, delays) =
                      fetchWithRetry_from net maxRetries baseDelayMs maxDelayMs (attempt + 1)
                in (res, delay # delays)))
      else (Inl RetryExhausted, []))"
  by pat_completeness auto
termination
  by (relation "measure (\<lambda>(net, maxRetries, b, m, attempt). Suc maxRetries - attempt)") auto

declare fetchWithRetry_from.simps [simp del]

definition fetchWithRetry ::
  "(nat \<Rightarrow> fetch_outcome) \<Rightarrow> (fetch_error + daily option option) \<times> jsnum list" where
  "fetchWithRetry net = fetchWithRetry_from net 8 (Fin 800) (Fin 20000) 0"

text \<open>
  \<open>fetchWithRetry\<close> of \<open>resume_build_planning_normals.js\<close>: the same loop, with a delay
  \<open>Math.min(15000, 1000 * Math.pow(2, attempt))\<close> that does not read the \<open>Retry-After\<close>
  header. Nothing is thrown after the loop: the function would return \<open>undefined\<close>
  (\<open>NoResponse\<close>), which is not reached from attempt \<open>0\<close>.
\<close>

definition resume_delay :: "nat \<Rightarrow> jsnum" where
  "resume_delay attempt = Math_min (Fin 15000) (js_mul (Fin 1000) (Math_pow2 attempt))"

function resume_fetchWithRetry_from ::
  "(nat \<Rightarrow> fetch_outcome) \<Rightarrow> nat \<Rightarrow> nat
     \<Rightarrow> (fetch_error + daily option option) \<times> jsnum list" where
  "resume_fetchWithRetry_from net maxRetries attempt =
     (if attempt \<le> maxRetries then
        (case net attempt of
           Rejected \<Rightarrow> (Inl FetchFailed, [])
         | Response st ra body \<Rightarrow>
             if resp_ok st then (Inr body, [])
             else if \<not> retryable st \<or> attempt = maxRetries then (Inl (HttpError st), [])
             else
               (let delay = resume_delay attempt;
                    (res, delays) = resume_fetchWithRetry_from net maxRetries (attempt + 1)
                in (res, delay # delays)))
      else (Inl NoResponse, []))"
  by pat_completeness auto
termination
  by (relation "measure (\<lambda>(net, maxRetries, attempt). Suc maxRetries - attempt)") auto

declare resume_fetchWithRetry_from.simps [simp del]

definition resume_fetchWithRetry ::
  "(nat \<Rightarrow> fetch_outcome) \<Rightarrow> (fetch_error + daily option option) \<times> jsnum list" where
  "resume_fetchWithRetry net = resume_fetchWithRetry_from net 8 0"

section \<open>Point index and extremes (app.js)\<close>

text \<open>
  A point as \<open>loadPoints\<close> keeps it: the coordinates and \<open>mile_est\<close> have gone through
  \<open>Number\<close> and the filter \<open>Number.isFinite\<close>, so they are finite numbers.
\<close>

record trail_point =
  tp_id :: string
  tp_state :: string
  tp_mile_est :: rat
  tp_lat :: rat
  tp_lon :: rat

text \<open>\<open>Math.abs(p.mile_est - targetMile)\<close>.\<close>

definition mile_distance :: "trail_point \<Rightarrow> jsnum \<Rightarrow> jsnum" where
  "mile_distance p targetMile = Math_abs (js_sub (Fin (tp_mile_est p)) targetMile)"

text \<open>
  The \<open>while (lo <= hi)\<close> loop of \<open>getNearestPointByMile\<close>: \<open>Inl\<close> is the point returned
  from inside the loop on an exact match, \<open>Inr\<close> the final \<open>(lo, hi)\<close>. Started at
  \<open>0\<close> and \<open>length - 1\<close>, \<open>mid\<close> stays inside the array.
\<close>

function search_loop ::
  "trail_point list \<Rightarrow> jsnum \<Rightarrow> int \<Rightarrow> int \<Rightarrow> trail_point + (int \<times> int)" where
  "search_loop arr targetMile lo' hi' =
     (if lo' \<le> hi' then
        (let mid = (lo' + hi') div 2; m = Fin (tp_mile_est (arr ! nat mid))
         in if js_eq m targetMile then Inl (arr ! nat mid)
            else if js_lt m targetMile then search_loop arr targetMile (mid + 1) hi'
            else search_loop arr targetMile lo' (mid - 1))
      else Inr (lo', hi'))"
  by pat_completeness auto
termination
  by (relation "measure (\<lambda>(arr, t, l, h). nat (h - l + 1))") auto

declare search_loop.simps [simp del]

definition getNearestPointByMile :: "trail_point list \<Rightarrow> jsnum \<Rightarrow> trail_point option" where
  "getNearestPointByMile arr targetMile =
     (if arr = [] \<or> \<not> isFinite targetMile then None
      else (case search_loop arr targetMile 0 (int (length arr) - 1) of
              Inl p \<Rightarrow> Some p
            | Inr (lo', hi') \<Rightarrow>
                (let a = arr ! nat (max 0 (min (int (length arr) - 1) hi'));
                     b = arr ! nat (max 0 (min (int (length arr) - 1) lo'))
                 in Some (if js_le (mile_distance a targetMile) (mile_distance b targetMile)
                          then a else b))))"

text \<open>
  Calendar dates (local time, four-digit years). \<open>addDays\<close> is \<open>setDate(getDate() + n)\<close>
  for \<open>n \<ge> 0\<close>; \<open>month_day\<close> is \<open>toISODate(date).slice(5)\<close>, kept as the two numbers;
  \<open>dayIndexInNonLeapYearFromMonthDay\<close> counts the days from January 1st, 2021 to that
  month and day of 2021 (February 29th overflows to March 1st) and clamps to \<open>0..364\<close>.
\<close>

record date =
  year :: int
  month :: nat
  day :: nat

definition is_leap :: "int \<Rightarrow> bool" where
  "is_leap y = (y mod 4 = 0 \<and> (y mod 100 \<noteq> 0 \<or> y mod 400 = 0))"

definition days_in_month :: "int \<Rightarrow> nat \<Rightarrow> nat" where
  "days_in_month y m =
     (if m = 2 then (if is_leap y then 29 else 28)
      else if m = 4 \<or> m = 6 \<or> m = 9 \<or> m = 11 then 30 else 31)"

definition next_day :: "date \<Rightarrow> date" where
  "next_day dt =
     (if day dt < days_in_month (year dt) (month dt) then dt\<lparr>day := day dt + 1\<rparr>
      else if month dt < 12 then dt\<lparr>month := month dt + 1, day := 1\<rparr>
      else dt\<lparr>year := year dt + 1, month := 1, day := 1\<rparr>)"

definition addDays :: "date \<Rightarrow> nat \<Rightarrow> date" where
  "addDays dt n = (next_day ^^ n) dt"

definition month_day :: "date \<Rightarrow> nat \<times> nat" where
  "month_day dt = (month dt, day dt)"

definition dayIndexInNonLeapYearFromMonthDay :: "nat \<times> nat \<Rightarrow> nat" where
  "dayIndexInNonLeapYearFromMonthDay md =
     (let diffDays = int ([0, 31, 59, 90, 120, 151, 181, 212, 243, 273, 304, 334] ! (fst md - 1))
                       + int (snd md) - 1
      in nat (max 0 (min 364 diffDays)))"

record app_state =
  allPointsSortedByMile :: "trail_point list"
  trailMinMiles :: jsnum
  trailMaxMiles :: jsnum
  normalsByPointId :: "(string \<times> rat option list \<times> rat option list) list"

record day_rec =
  dr_date :: date
  dr_targetMile :: jsnum
  dr_point :: trail_point
  avgHigh :: rat
  avgLow :: rat

text \<open>\<open>xs[i]\<close> of a slot array: a number, or \<open>None\<close> for \<open>null\<close> and for an index past the end.\<close>

definition slot :: "rat option list \<Rightarrow> nat \<Rightarrow> rat option" where
  "slot xs i = (if i < length xs then xs ! i else None)"

text \<open>
  The body of the loop over the days of the trip: the projected mile of day \<open>i\<close>,
  clamped to the trail, and the record \<open>rec\<close> of that day when its nearest point has
  normals with a number in both slots of the day.
\<close>

definition target_mile :: "app_state \<Rightarrow> string \<Rightarrow> jsnum \<Rightarrow> nat \<Rightarrow> jsnum" where
  "target_mile st direction milesPerDay i =
     (let startMile = (if direction = ''SOBO'' then trailMaxMiles st else trailMinMiles st);
          sign = (if direction = ''SOBO'' then Fin (- 1) else Fin 1);
          t0 = js_add startMile (js_mul sign (js_mul milesPerDay (Fin (of_nat i))));
          t1 = (if js_lt t0 (trailMinMiles st) then trailMinMiles st else t0)
      in if js_lt (trailMaxMiles st) t1 then trailMaxMiles st else t1)"

definition day_record ::
  "app_state \<Rightarrow> string \<Rightarrow> date \<Rightarrow> jsnum \<Rightarrow> nat \<Rightarrow> day_rec option" where
  "day_record st direction startDate milesPerDay i =
     (let dt = addDays startDate i;
          targetMile = target_mile st direction milesPerDay i
      in case getNearestPointByMile (allPointsSortedByMile st) targetMile of
           None \<Rightarrow> None
         | Some p \<Rightarrow>
             (case map_of (normalsByPointId st) (tp_id p) of
                None \<Rightarrow> None
              | Some (his, los) \<Rightarrow>
                  (let idx = dayIndexInNonLeapYearFromMonthDay (month_day dt)
                   in case (slot his idx, slot los idx) of
                        (Some h, Some l) \<Rightarrow>
                          Some \<lparr>dr_date = dt, dr_targetMile = targetMile, dr_point = p,
                                avgHigh = h, avgLow = l\<rparr>
                      | _ \<Rightarrow> None)))"

definition track ::
  "day_rec option \<times> day_rec option \<Rightarrow> day_rec option \<Rightarrow> day_rec option \<times> day_rec option" where
  "track hc r =
     (case r of
        None \<Rightarrow> hc
      | Some rc \<Rightarrow>
          ((case fst hc of
              None \<Rightarrow> Some rc
            | Some hottest \<Rightarrow> if avgHigh hottest < avgHigh rc then Some rc else Some hottest),
           (case snd hc of
              None \<Rightarrow> Some rc
            | Some coldest \<Rightarrow> if avgLow rc < avgLow coldest then Some rc else Some coldest)))"

definition duration_extremes ::
  "app_state \<Rightarrow> string \<Rightarrow> date \<Rightarrow> jsnum \<Rightarrow> nat \<Rightarrow> day_rec option \<times> day_rec option" where
  "duration_extremes st direction startDate milesPerDay durationDays =
     foldl (\<lambda>hc i. track hc (day_record st direction startDate milesPerDay i))
       (None, None) [0..<durationDays]"

datatype blocks = UnableToCompute | Tables day_rec day_rec

definition renderDurExtremesBlocks :: "day_rec option \<Rightarrow> day_rec option \<Rightarrow> blocks" where
  "renderDurExtremesBlocks hottest coldest =
     (case (hottest, coldest) of
        (Some h, Some c) \<Rightarrow> Tables h c
      | _ \<Rightarrow> UnableToCompute)"

datatype extremes_view = NormalsNotLoaded | PointsStillLoading | Shown blocks

definition computeAndRenderDurationExtremes ::
  "app_state \<Rightarrow> string \<Rightarrow> date \<Rightarrow> jsnum \<Rightarrow> nat \<Rightarrow> extremes_view" where
  "computeAndRenderDurationExtremes st direction startDate milesPerDay durationDays =
     (if normalsByPointId st = [] then NormalsNotLoaded
      else if \<not> isFinite (trailMinMiles st) \<or> \<not> isFinite (trailMaxMiles st)
              \<or> allPointsSortedByMile st = []
      then PointsStillLoading
      else (let (hottest, coldest) =
                  duration_extremes st direction startDate milesPerDay durationDays
            in Shown (renderDurExtremesBlocks hottest coldest)))"

section \<open>Example stores\<close>

definition pointA :: point where
  "pointA = \<lparr>point_id = ''GA_0001_0'', legacy_id = None, mile = Num (Fin 1), mile_est = Undefined,
              lat = Num (Fin 34), lon = Num (Fin (- 84)), state = ''GA''\<rparr>"

definition pointB :: point where
  "pointB = \<lparr>point_id = ''GA_0001_1'', legacy_id = None, mile = Undefined, mile_est = Num (Fin 1),
              lat = Num (Fin 34), lon = Num (Fin (- 84)), state = ''GA''\<rparr>"

definition pointC :: point where
  "pointC = \<lparr>point_id = ''GA_0002_0'', legacy_id = None, mile = Num (Fin 2), mile_est = Undefined,
              lat = Num (Fin 35), lon = Num (Fin (- 83)), state = ''GA''\<rparr>"

definition recA :: nrec where
  "recA = \<lparr>rec_id = IdString ''GA_0001_0'', rec_legacy_id = None, hi = [Some 50], lo = [Some 30]\<rparr>"

definition store :: "point list \<Rightarrow> nrec list \<Rightarrow> disk" where
  "store ps rs = \<lparr>points_file = Parsed (PointsArray ps),
                   normals_file = Parsed (RootObject None (Some rs)),
                   points_backups = [], normals_backups = []\<rparr>"

definition array_store :: "point list \<Rightarrow> nrec list \<Rightarrow> disk" where
  "array_store ps rs = \<lparr>points_file = Parsed (PointsArray ps),
                         normals_file = Parsed (RootArray rs),
                         points_backups = [], normals_backups = []\<rparr>"

definition one_day :: daily where
  "one_day = \<lparr>time = [''2018-01-01''], temperature_2m_max = [Num (Fin 50)],
               temperature_2m_min = [Num (Fin 30)]\<rparr>"

text \<open>A network that answers the first \<open>k\<close> requests and fails afterwards with status \<open>st\<close>.\<close>

definition net_ok_until :: "nat \<Rightarrow> nat \<Rightarrow> network" where
  "net_ok_until k st n la lo' =
     (if n < k then Response 200 None (Some (Some one_day)) else Response st None None)"

definition net_ok :: network where
  "net_ok n la lo' = Response 200 None (Some (Some one_day))"

text \<open>A network that fails the first request only, with status \<open>st\<close> and header \<open>ra\<close>.\<close>

definition net_fail_first :: "nat \<Rightarrow> string option \<Rightarrow> network" where
  "net_fail_first st ra n la lo' =
     (if n = 0 then Response st ra None else Response 200 None (Some (Some one_day)))"

definition no_averages :: "daily \<Rightarrow> rat option list \<times> rat option list" where
  "no_averages dl = ([], [])"

text \<open>
  The disk after a run on \<open>store [pointA, pointB, pointC] []\<close> that is cut at the second
  request, and after the run that follows it.
\<close>

definition after_first :: disk where
  "after_first = \<lparr>points_file = Parsed (PointsArray [pointA, pointB, pointC]),
      normals_file = Parsed (RootObject (Some (progress_meta []))
        (Some [\<lparr>rec_id = IdString ''GA_0001_0'', rec_legacy_id = None, hi = [], lo = []\<rparr>])),
      points_backups = [], normals_backups = []\<rparr>"

definition after_second :: disk where
  "after_second = \<lparr>points_file = Parsed (PointsArray [pointA, pointB, pointC]),
      normals_file = Parsed (RootObject (Some (progress_meta (progress_meta (progress_meta []))))
        (Some [\<lparr>rec_id = IdString ''GA_0001_0'', rec_legacy_id = None, hi = [], lo = []\<rparr>,
               \<lparr>rec_id = IdString ''GA_0001_1'', rec_legacy_id = None, hi = [], lo = []\<rparr>,
               \<lparr>rec_id = IdString ''GA_0002_0'', rec_legacy_id = None, hi = [], lo = []\<rparr>])),
      points_backups = [], normals_backups = []\<rparr>"

definition tp0 :: trail_point where
  "tp0 = \<lparr>tp_id = ''at-main-mi0000000'', tp_state = ''GA'', tp_mile_est = 0, tp_lat = 34, tp_lon = - 84\<rparr>"

definition tp10 :: trail_point where
  "tp10 = \<lparr>tp_id = ''at-main-mi0010000'', tp_state = ''GA'', tp_mile_est = 10, tp_lat = 35, tp_lon = - 84\<rparr>"

definition tp20 :: trail_point where
  "tp20 = \<lparr>tp_id = ''at-main-mi0020000'', tp_state = ''GA'', tp_mile_est = 20, tp_lat = 36, tp_lon = - 84\<rparr>"

text \<open>
  Three points at miles 0, \<open>0.9999999999999999\<close> (the double just below 1) and 13, as
  \<open>loadPoints\<close> leaves them.
\<close>

definition tp_below_1 :: trail_point where
  "tp_below_1 = \<lparr>tp_id = ''at-main-mi0001000'', tp_state = ''GA'', tp_mile_est = 1 - 1 / 2 ^ 53,
                  tp_lat = 35, tp_lon = - 84\<rparr>"

definition tp13 :: trail_point where
  "tp13 = \<lparr>tp_id = ''at-main-mi0013000'', tp_state = ''GA'', tp_mile_est = 13, tp_lat = 36, tp_lon = - 84\<rparr>"

definition rounding_app :: app_state where
  "rounding_app = \<lparr>allPointsSortedByMile = [tp0, tp_below_1, tp13],
                    trailMinMiles = Fin 0, trailMaxMiles = Fin 13,
                    normalsByPointId = [(''at-main-mi0000000'', [Some 50], [Some 30])]\<rparr>"

definition example_app :: app_state where
  "example_app = \<lparr>allPointsSortedByMile = [tp10], trailMinMiles = Fin 10, trailMaxMiles = Fin 10,
                   normalsByPointId = [(''at-main-mi0010000'',
                                        [Some 50, Some 70, None], [Some 30, Some 20, Some 10])]\<rparr>"

definition jan1 :: date where
  "jan1 = \<lparr>year = 2027, month = 1, day = 1\<rparr>"

section \<open>Rounding to binary64\<close>

lemma pow2_powi: "pow2 e = 2 powi e"
  by (simp add: pow2_def power_int_def field_simps)

lemma pow2_pos [simp]: "0 < pow2 e"
  by (simp add: pow2_powi)

lemma pow2_add: "pow2 (a + b) = pow2 a * pow2 b"
  by (simp add: pow2_powi power_int_add)

lemma pow2_mono: "a \<le> b \<Longrightarrow> pow2 a \<le> pow2 b"
  by (simp add: pow2_powi power_int_increasing)

lemma pow2_less_imp: "pow2 a < pow2 b \<Longrightarrow> a < b"
  using pow2_mono [of b a] by (cases "a < b") auto

lemma pow2_nat: "0 \<le> e \<Longrightarrow> pow2 e = 2 ^ nat e"
  by (simp add: pow2_def)

lemma floor_log2_bounds:
  assumes "0 < a"
  shows "pow2 (floor_log2 a) \<le> a \<and> a < pow2 (floor_log2 a + 1)"
proof -
  obtain n d where nd: "quotient_of a = (n, d)" by (cases "quotient_of a")
  then have d: "0 < d" and a: "a = of_int n / of_int d"
    by (auto simp: quotient_of_denom_pos quotient_of_div)
  with assms have n: "0 < n" by (simp add: zero_less_divide_iff)
  define e0 where "e0 = bitlen n - bitlen d"
  have bn: "1 \<le> bitlen n" and bd: "1 \<le> bitlen d"
    using n d by (auto simp: bitlen_alt_def)
  have n1: "(2::rat) powi (bitlen n - 1) \<le> of_int n" and n2: "of_int n < (2::rat) powi (bitlen n)"
    and d1: "(2::rat) powi (bitlen d - 1) \<le> of_int d" and d2: "of_int d < (2::rat) powi (bitlen d)"
  proof -
    have "(2::int) ^ nat (bitlen n - 1) \<le> n" "n < 2 ^ nat (bitlen n)"
      "(2::int) ^ nat (bitlen d - 1) \<le> d" "d < 2 ^ nat (bitlen d)"
      using bitlen_bounds [OF n] bitlen_bounds [OF d] by auto
    then have "rat_of_int (2 ^ nat (bitlen n - 1)) \<le> of_int n" "of_int n < rat_of_int (2 ^ nat (bitlen n))"
      "rat_of_int (2 ^ nat (bitlen d - 1)) \<le> of_int d" "of_int d < rat_of_int (2 ^ nat (bitlen d))"
      by (simp_all only: of_int_le_iff of_int_less_iff)
    with bn bd show "(2::rat) powi (bitlen n - 1) \<le> of_int n" "of_int n < (2::rat) powi (bitlen n)"
      "(2::rat) powi (bitlen d - 1) \<le> of_int d" "of_int d < (2::rat) powi (bitlen d)"
      by (simp_all add: power_int_def)
  qed
  have dpos: "(0::rat) < of_int d" using d by simp
  have up: "a < pow2 (e0 + 1)"
  proof -
    have "a < 2 powi (bitlen n) / of_int d"
      unfolding a using n2 dpos by (simp add: divide_strict_right_mono)
    also have "\<dots> \<le> 2 powi (bitlen n) / 2 powi (bitlen d - 1)"
      using d1 by (simp add: frac_le)
    also have "\<dots> = 2 powi (bitlen n - (bitlen d - 1))"
      by (simp add: power_int_diff)
    finally show ?thesis by (simp add: pow2_powi e0_def algebra_simps)
  qed
  have low: "pow2 (e0 - 1) \<le> a"
  proof -
    have "pow2 (e0 - 1) = 2 powi ((bitlen n - 1) - bitlen d)"
      by (simp add: pow2_powi e0_def algebra_simps)
    also have "\<dots> = 2 powi (bitlen n - 1) / 2 powi (bitlen d)"
      by (simp add: power_int_diff)
    also have "\<dots> \<le> of_int n / 2 powi (bitlen d)"
      using n1 by (simp add: divide_right_mono)
    also have "\<dots> \<le> of_int n / of_int d"
      using d2 dpos n by (simp add: frac_le)
    finally show ?thesis by (simp add: a)
  qed
  show ?thesis
    using up low nd by (auto simp: floor_log2_def e0_def Let_def)
qed


lemma floor_log2_unique:
  assumes "0 < a" "pow2 e \<le> a" "a < pow2 (e + 1)"
  shows "floor_log2 a = e"
proof -
  from floor_log2_bounds [OF assms(1)] have
    b: "pow2 (floor_log2 a) \<le> a" "a < pow2 (floor_log2 a + 1)" by auto
  from b(1) assms(3) have "pow2 (floor_log2 a) < pow2 (e + 1)" by simp
  then have 1: "floor_log2 a < e + 1" by (rule pow2_less_imp)
  from assms(2) b(2) have "pow2 e < pow2 (floor_log2 a + 1)" by simp
  then have "e < floor_log2 a + 1" by (rule pow2_less_imp)
  with 1 show ?thesis by simp
qed

lemma floor_log2_mono:
  assumes "0 < x" "x \<le> y"
  shows "floor_log2 x \<le> floor_log2 y"
proof -
  from assms have y: "0 < y" by simp
  from floor_log2_bounds [OF assms(1)] floor_log2_bounds [OF y] assms(2)
  have "pow2 (floor_log2 x) < pow2 (floor_log2 y + 1)" by simp
  then have "floor_log2 x < floor_log2 y + 1" by (rule pow2_less_imp)
  then show ?thesis by simp
qed

lemma round_half_even_bounds:
  "\<lfloor>x\<rfloor> \<le> round_half_even x \<and> round_half_even x \<le> \<lfloor>x\<rfloor> + 1"
  by (simp add: round_half_even_def Let_def)

lemma round_half_even_of_int [simp]: "round_half_even (of_int n) = n"
  by (simp add: round_half_even_def Let_def)

lemma round_half_even_mono:
  assumes "x \<le> y"
  shows "round_half_even x \<le> round_half_even y"
proof (cases "\<lfloor>x\<rfloor> = \<lfloor>y\<rfloor>")
  case True
  with assms show ?thesis
    by (auto simp: round_half_even_def Let_def)
next
  case False
  with assms have "\<lfloor>x\<rfloor> + 1 \<le> \<lfloor>y\<rfloor>"
    using floor_mono [OF assms] by linarith
  with round_half_even_bounds [of x] round_half_even_bounds [of y] show ?thesis
    by linarith
qed

lemma round_mag_eq:
  assumes "0 < a" "pow2 e \<le> a" "a < pow2 (e + 1)"
  shows "round_mag a = of_int (round_half_even (a / pow2 (max e (- 1022) - 52)))
                         * pow2 (max e (- 1022) - 52)"
  by (simp add: round_mag_def floor_log2_unique [OF assms] Let_def)

lemma round_mag_zero [simp]: "round_mag 0 = 0"
  using round_half_even_of_int [of 0] by (simp add: round_mag_def Let_def)

lemma round_mag_nonneg:
  assumes "0 \<le> a"
  shows "0 \<le> round_mag a"
proof -
  define u where "u = pow2 (max (floor_log2 a) (- 1022) - 52)"
  have "0 < u" by (simp add: u_def)
  with assms have "0 \<le> a / u" by simp
  then have "0 \<le> \<lfloor>a / u\<rfloor>" by simp
  with round_half_even_bounds [of "a / u"] have "0 \<le> round_half_even (a / u)" by linarith
  with \<open>0 < u\<close> show ?thesis by (simp add: round_mag_def Let_def u_def [symmetric])
qed

lemma round_mag_mono:
  assumes "0 < x" "x \<le> y"
  shows "round_mag x \<le> round_mag y"
proof -
  from assms have y: "0 < y" by simp
  define ex where "ex = max (floor_log2 x) (- 1022)"
  define ey where "ey = max (floor_log2 y) (- 1022)"
  define ux where "ux = pow2 (ex - 52)"
  define uy where "uy = pow2 (ey - 52)"
  have ux: "0 < ux" and uy: "0 < uy" by (simp_all add: ux_def uy_def)
  have rx: "round_mag x = of_int (round_half_even (x / ux)) * ux"
    and ry: "round_mag y = of_int (round_half_even (y / uy)) * uy"
    by (simp_all add: round_mag_def Let_def ux_def uy_def ex_def ey_def)
  have le: "ex \<le> ey"
    using floor_log2_mono [OF assms] by (simp add: ex_def ey_def)
  show ?thesis
  proof (cases "ex = ey")
    case True
    then have "ux = uy" by (simp add: ux_def uy_def)
    moreover have "x / uy \<le> y / uy" using assms(2) uy by (simp add: divide_right_mono)
    then have "round_half_even (x / uy) \<le> round_half_even (y / uy)"
      by (rule round_half_even_mono)
    ultimately show ?thesis using uy by (simp add: rx ry)
  next
    case False
    with le have lt: "ex + 1 \<le> ey" by simp
    then have eyf: "ey = floor_log2 y" by (auto simp: ey_def ex_def)
    have "x < pow2 (floor_log2 x + 1)" using floor_log2_bounds [OF assms(1)] by simp
    also have "\<dots> \<le> pow2 (ex + 1)" by (rule pow2_mono) (simp add: ex_def)
    finally have xl: "x < pow2 (ex + 1)" .
    have split53: "ex + 1 = 53 + (ex - 52)" by simp
    have "pow2 (ex + 1) = pow2 53 * ux"
      unfolding ux_def by (subst split53) (rule pow2_add)
    with xl ux have "x / ux \<le> pow2 53" by (simp add: pos_divide_le_eq)
    also have "pow2 53 = of_int (2 ^ 53)" by (simp add: pow2_def)
    finally have "round_half_even (x / ux) \<le> round_half_even (of_int (2 ^ 53))"
      by (rule round_half_even_mono)
    then have "round_half_even (x / ux) \<le> 2 ^ 53" by (simp only: round_half_even_of_int)
    then have "rat_of_int (round_half_even (x / ux)) \<le> of_int (2 ^ 53)"
      by (simp only: of_int_le_iff)
    then have "round_mag x \<le> of_int (2 ^ 53) * ux"
      using ux by (simp add: rx mult_right_mono)
    also have "\<dots> = pow2 (ex + 1)"
      using \<open>pow2 (ex + 1) = pow2 53 * ux\<close> by (simp add: pow2_def)
    also have "\<dots> \<le> pow2 ey" using lt by (rule pow2_mono)
    finally have 1: "round_mag x \<le> pow2 ey" .
    have "pow2 ey \<le> y" using floor_log2_bounds [OF y] eyf by simp
    moreover have split52: "ey = 52 + (ey - 52)" by simp
    have p52: "pow2 ey = pow2 52 * uy"
      unfolding uy_def by (subst split52) (rule pow2_add)
    ultimately have "pow2 52 \<le> y / uy" using uy by (simp add: pos_le_divide_eq)
    moreover have "pow2 52 = of_int (2 ^ 52)" by (simp add: pow2_def)
    ultimately have "round_half_even (of_int (2 ^ 52)) \<le> round_half_even (y / uy)"
      using round_half_even_mono by simp
    then have "2 ^ 52 \<le> round_half_even (y / uy)" by (simp only: round_half_even_of_int)
    then have "rat_of_int (2 ^ 52) \<le> of_int (round_half_even (y / uy))"
      by (simp only: of_int_le_iff)
    then have "of_int (2 ^ 52) * uy \<le> round_mag y"
      using uy by (simp add: ry mult_right_mono)
    moreover have "of_int (2 ^ 52) * uy = pow2 ey"
      using p52 by (simp add: pow2_def)
    ultimately have "pow2 ey \<le> round_mag y" by simp
    with 1 show ?thesis by simp
  qed
qed

lemma round_mag_mono0: "0 \<le> x \<Longrightarrow> x \<le> y \<Longrightarrow> round_mag x \<le> round_mag y"
  using round_mag_mono [of x y] round_mag_nonneg [of y] by (cases "x = 0") auto

lemma Math_abs_round_binary64:
  "Math_abs (round_binary64 q) =
     (if 2 ^ 1024 \<le> round_mag \<bar>q\<bar> then PInf else Fin (round_mag \<bar>q\<bar>))"
  using round_mag_nonneg [of "\<bar>q\<bar>"]
  by (auto simp: round_binary64_def)

lemma abs_round_mono:
  assumes "\<bar>x\<bar> \<le> \<bar>y\<bar>"
  shows "js_le (Math_abs (round_binary64 x)) (Math_abs (round_binary64 y))"
  using round_mag_mono0 [OF _ assms]
  by (auto simp: Math_abs_round_binary64 js_le_def js_eq_def)

lemma floor_rat_numeral [simp]:
  "\<lfloor>(numeral a :: rat) / numeral b\<rfloor> = numeral a div numeral b"
  by (metis floor_divide_of_int_eq of_int_numeral)

lemma round_binary64_pos:
  assumes "0 < a" "pow2 e \<le> a" "a < pow2 (e + 1)"
    and "r = of_int (round_half_even (a / pow2 (max e (- 1022) - 52))) * pow2 (max e (- 1022) - 52)"
  shows "round_binary64 a = (if 2 ^ 1024 \<le> r then PInf else Fin r)"
  using assms(1) by (simp add: round_binary64_def round_mag_eq [OF assms(1-3)] assms(4))

lemma rb_2190_3: "round_binary64 (21903 / 10) = Fin (2408260318317773 / 1099511627776)"
  by (subst round_binary64_pos [where e = 11 and r = "2408260318317773 / 1099511627776"])
     (simp_all add: pow2_def round_half_even_def Let_def)

lemma mul_2190_3: "js_mul (round_binary64 (21903 / 10)) (Fin 1000) = Fin 2190300"
  unfolding rb_2190_3 js_mul.simps
  by (subst round_binary64_pos [where e = 21 and r = "2190300"])
     (simp_all add: pow2_def round_half_even_def Let_def)

lemma overflow_example: "js_mul (Fin (2 ^ 1020)) (Fin 1000) = PInf"
  unfolding js_mul.simps
  by (subst round_binary64_pos [where e = 1029 and r = "2 ^ 1020 * 1000"])
     (simp_all add: pow2_def round_half_even_def Let_def)

lemma mul_1: "js_mul (Fin 1) (Fin 1000) = Fin 1000"
  unfolding js_mul.simps
  by (subst round_binary64_pos [where e = 9 and r = "1000"])
     (simp_all add: pow2_def round_half_even_def Let_def)

lemma of_int_less_power2:
  assumes "n < 2 ^ k"
  shows "rat_of_int n < 2 ^ k"
proof -
  from assms have "rat_of_int n < rat_of_int (2 ^ k)" by (simp only: of_int_less_iff)
  also have "rat_of_int (2 ^ k) = 2 ^ k" by simp
  finally show ?thesis .
qed

lemma round_mag_int:
  assumes "0 < n" "n < 2 ^ 53"
  shows "round_mag (of_int n) = of_int n"
proof -
  let ?a = "rat_of_int n"
  define e where "e = floor_log2 ?a"
  from assms(1) have a12: "0 < ?a" "1 \<le> ?a" by simp_all
  from assms(2) have a3: "?a < 2 ^ 53" by (rule of_int_less_power2)
  note a = a12 a3
  from floor_log2_bounds [OF a(1)] have b: "pow2 e \<le> ?a" "?a < pow2 (e + 1)"
    by (simp_all add: e_def)
  have "pow2 0 < pow2 (e + 1)" using a(2) b(2) by (simp add: pow2_def)
  then have e0: "0 \<le> e" using pow2_less_imp [of 0 "e + 1"] by simp
  have "pow2 e < pow2 53" using a(3) b(1) by (simp add: pow2_def)
  then have e53: "e \<le> 52" using pow2_less_imp [of e 53] by simp
  define k where "k = nat (52 - e)"
  have u: "pow2 (max e (- 1022) - 52) = 1 / 2 ^ k"
    using e0 e53 by (auto simp: pow2_def k_def max_def)
  have "?a / (1 / 2 ^ k) = of_int (n * 2 ^ k)" by simp
  then have "round_half_even (?a / (1 / 2 ^ k)) = n * 2 ^ k"
    by (simp only: round_half_even_of_int)
  then show ?thesis
    by (simp add: round_mag_def Let_def e_def [symmetric] u)
qed

lemma round_binary64_int:
  assumes "\<bar>n\<bar> < 2 ^ 53"
  shows "round_binary64 (of_int n) = Fin (of_int n)"
proof (cases "n = 0")
  case True
  then show ?thesis by (simp add: round_binary64_def)
next
  case False
  with assms have "round_mag (of_int \<bar>n\<bar>) = of_int \<bar>n\<bar>" by (intro round_mag_int) auto
  moreover from assms have "rat_of_int \<bar>n\<bar> < 2 ^ 1024"
  proof -
    from assms have "rat_of_int \<bar>n\<bar> < 2 ^ 53" by (rule of_int_less_power2)
    also have "(2::rat) ^ 53 \<le> 2 ^ 1024" by (intro power_increasing) auto
    finally show ?thesis .
  qed
  ultimately show ?thesis using False
    by (auto simp: round_binary64_def)
qed

lemma round_binary64_numeral:
  "numeral k < (2::int) ^ 53 \<Longrightarrow> round_binary64 (numeral k) = Fin (numeral k)"
  "numeral k < (2::int) ^ 53 \<Longrightarrow> round_binary64 (- numeral k) = Fin (- numeral k)"
  using round_binary64_int [of "numeral k"] round_binary64_int [of "- numeral k"] by simp_all

section \<open>Decimal tokens\<close>

lemma replicate_numeral: "replicate (numeral k) x = x # replicate (pred_numeral k) x"
  by (simp add: numeral_eq_Suc)

lemma digit_char_cases:
  assumes "d < 10"
  shows "d = 0 \<or> d = 1 \<or> d = 2 \<or> d = 3 \<or> d = 4 \<or> d = 5 \<or> d = 6 \<or> d = 7 \<or> d = 8 \<or> d = (9::nat)"
  using assms by arith

lemma digit_val_digit_char: "d < 10 \<Longrightarrow> digit_val (digit_char d) = d"
  using digit_char_cases [of d] by (auto simp: digit_val_def digit_char_def)

lemma is_digit_digit_char: "d < 10 \<Longrightarrow> is_digit (digit_char d)"
  using digit_char_cases [of d] by (auto simp: is_digit_def digit_char_def)

lemma digit_char_zero_iff: "d < 10 \<Longrightarrow> digit_char d = CHR ''0'' \<longleftrightarrow> d = 0"
  using digit_char_cases [of d] by (auto simp: digit_char_def)

lemma dec_digits_nonempty [simp]: "dec_digits n \<noteq> []"
  by (subst dec_digits.simps) simp

lemma digits_val_snoc: "digits_val (s @ [c]) = 10 * digits_val s + digit_val c"
  by (simp add: digits_val_def)

lemma digits_val_dec_digits: "digits_val (dec_digits n) = n"
proof (induction n rule: dec_digits.induct)
  case (1 n)
  show ?case
  proof (cases "n < 10")
    case True
    then show ?thesis
      by (subst dec_digits.simps) (simp add: digits_val_def digit_val_digit_char)
  next
    case False
    with 1 have "digits_val (dec_digits (n div 10)) = n div 10" by simp
    with False show ?thesis
      by (subst dec_digits.simps) (simp add: digits_val_snoc digit_val_digit_char)
  qed
qed

lemma dec_digits_all_digits: "list_all is_digit (dec_digits n)"
proof (induction n rule: dec_digits.induct)
  case (1 n)
  show ?case
  proof (cases "n < 10")
    case True
    then show ?thesis by (subst dec_digits.simps) (simp add: is_digit_digit_char)
  next
    case False
    with 1 show ?thesis by (subst dec_digits.simps) (simp add: is_digit_digit_char)
  qed
qed

lemma hd_dec_digits: "0 < n \<Longrightarrow> hd (dec_digits n) \<noteq> CHR ''0''"
proof (induction n rule: dec_digits.induct)
  case (1 n)
  show ?case
  proof (cases "n < 10")
    case True
    with 1(2) show ?thesis
      by (subst dec_digits.simps) (simp add: digit_char_zero_iff)
  next
    case False
    then have "0 < n div 10" by simp
    with 1(1) False have "hd (dec_digits (n div 10)) \<noteq> CHR ''0''" by simp
    with False show ?thesis by (subst dec_digits.simps) simp
  qed
qed

lemma length_dec_digits: "length (dec_digits n) \<le> k \<longleftrightarrow> n < 10 ^ k \<and> 0 < k"
proof (induction n arbitrary: k rule: dec_digits.induct)
  case (1 n)
  show ?case
  proof (cases "n < 10")
    case True
    have "n < 10 ^ k" if "0 < k"
    proof -
      from that have "(10::nat) ^ 1 \<le> 10 ^ k" by (intro power_increasing) auto
      with True show ?thesis by simp
    qed
    with True show ?thesis by (subst dec_digits.simps) (auto simp: Suc_le_eq)
  next
    case False
    show ?thesis
    proof (cases k)
      case 0
      with False show ?thesis by (subst dec_digits.simps) simp
    next
      case (Suc j)
      from 1 [OF False, of j] have ih: "length (dec_digits (n div 10)) \<le> j \<longleftrightarrow> n div 10 < 10 ^ j \<and> 0 < j" .
      have "n div 10 < 10 ^ j \<longleftrightarrow> n < 10 ^ Suc j"
        by (simp add: div_less_iff_less_mult mult.commute)
      moreover have "0 < j" if "n < 10 ^ Suc j"
        using that False by (cases j) auto
      ultimately show ?thesis
        using False Suc ih by (subst dec_digits.simps) auto
    qed
  qed
qed

lemma hd_String_int: "n \<noteq> 0 \<Longrightarrow> hd (String_int n) \<noteq> CHR ''0''"
  using hd_dec_digits [of "nat n"] by (auto simp: String_int_def)

lemma String_int_nonempty [simp]: "String_int n \<noteq> []"
  by (simp add: String_int_def)

lemma String_int_zero: "String_int 0 = ''0''"
  by (simp add: String_int_def dec_digits.simps digit_char_def)

lemma dropWhile_zeros_token:
  "dropWhile (\<lambda>c. c = CHR ''0'') (padStart w (CHR ''0'') (String_int n))
     = (if n = 0 then [] else String_int n)"
proof (cases "n = 0")
  case True
  then show ?thesis
    by (simp add: padStart_def String_int_zero dropWhile_append)
next
  case False
  then have "hd (String_int n) \<noteq> CHR ''0''" by (rule hd_String_int)
  then have "dropWhile (\<lambda>c. c = CHR ''0'') (String_int n) = String_int n"
    by (cases "String_int n") auto
  with False show ?thesis
    by (simp add: padStart_def dropWhile_append)
qed

lemma dec_digits_no_minus [simp]:
  "dec_digits k \<noteq> CHR ''-'' # t" "CHR ''-'' # t \<noteq> dec_digits k"
proof -
  show "dec_digits k \<noteq> CHR ''-'' # t"
  proof
    assume "dec_digits k = CHR ''-'' # t"
    with dec_digits_all_digits [of k] have "is_digit (CHR ''-'')" by simp
    then show False by (simp add: is_digit_def)
  qed
  then show "CHR ''-'' # t \<noteq> dec_digits k" by (rule not_sym)
qed

lemma String_int_inj: "String_int a = String_int b \<Longrightarrow> a = b"
proof -
  assume eq: "String_int a = String_int b"
  show "a = b"
  proof (cases "a < 0")
    case True
    with eq have b: "b < 0"
      by (auto simp: String_int_def split: if_splits)
    with True eq have "dec_digits (nat (- a)) = dec_digits (nat (- b))" by (simp add: String_int_def)
    then have "digits_val (dec_digits (nat (- a))) = digits_val (dec_digits (nat (- b)))" by simp
    with True b show ?thesis by (simp add: digits_val_dec_digits)
  next
    case False
    with eq have b: "\<not> b < 0"
      by (auto simp: String_int_def split: if_splits)
    with False eq have "dec_digits (nat a) = dec_digits (nat b)" by (simp add: String_int_def)
    then have "digits_val (dec_digits (nat a)) = digits_val (dec_digits (nat b))" by simp
    with False b show ?thesis by (simp add: digits_val_dec_digits)
  qed
qed

lemma token_inj:
  assumes "padStart w (CHR ''0'') (String_int a) = padStart w (CHR ''0'') (String_int b)"
  shows "a = b"
proof -
  from assms have "(if a = 0 then [] else String_int a) = (if b = 0 then [] else String_int b)"
    by (simp flip: dropWhile_zeros_token [of w])
  then show ?thesis
    using String_int_nonempty [of a] String_int_nonempty [of b]
    by (auto split: if_splits dest: String_int_inj simp del: String_int_nonempty)
qed

subsection \<open>Printing of numbers\<close>

lemma dec_digits_times10: "0 < m \<Longrightarrow> dec_digits (10 * m) = dec_digits m @ ''0''"
  by (subst dec_digits.simps) (simp add: digit_char_def)

lemma dec_digits_shift:
  "0 < s \<Longrightarrow> dec_digits (s * 10 ^ j) = dec_digits s @ replicate j (CHR ''0'')"
proof (induction j)
  case 0
  then show ?case by simp
next
  case (Suc j)
  then have "0 < s * 10 ^ j" by simp
  from dec_digits_times10 [OF this] Suc show ?case
    by (simp add: mult.assoc mult.left_commute replicate_append_same)
qed

lemma length_dec_digits_eq:
  assumes "10 ^ (k - 1) \<le> s" "s < 10 ^ k"
  shows "length (dec_digits s) = k"
proof -
  from assms have k: "0 < k" by (cases k) auto
  with assms(2) have "length (dec_digits s) \<le> k" by (simp add: length_dec_digits)
  moreover have "\<not> length (dec_digits s) \<le> k - 1"
    using assms(1) by (simp add: length_dec_digits)
  ultimately show ?thesis by simp
qed

lemma closer_cases: "closer v k c1 c2 = c1 \<or> closer v k c1 c2 = c2"
  by (simp add: closer_def Let_def)

lemma foldl_closer_mem: "foldl (closer v k) c cs \<in> set (c # cs)"
proof (induction cs arbitrary: c)
  case Nil
  then show ?case by simp
next
  case (Cons a cs)
  from Cons [of "closer v k c a"] closer_cases [of v k c a] show ?case by auto
qed

lemma candidates_fit:
  assumes "(s, n) \<in> set (candidates v k)"
  shows "digits_fit v k n s"
proof -
  from assms obtain cs where "(s, n) \<in> set (filter (\<lambda>(s, n). digits_fit v k n s) cs)"
    unfolding candidates_def Let_def by blast
  then have "(\<lambda>(s, n). digits_fit v k n s) (s, n)"
    unfolding set_filter mem_Collect_eq by (rule conjunct2)
  then show ?thesis by (simp only: prod.case)
qed

lemma shortest_from_cases:
  "shortest_from v k0 = (s, n, k) \<Longrightarrow>
   (s = v \<and> n = length (dec_digits v) \<and> k = n) \<or> digits_fit v k n s"
proof (induction v k0 rule: shortest_from.induct)
  case (1 v k0)
  show ?case
  proof (cases "length (dec_digits v) < k0")
    case True
    with "1.prems" show ?thesis by (subst (asm) shortest_from.simps) auto
  next
    case False
    show ?thesis
    proof (cases "candidates v k0")
      case Nil
      with False "1.prems" have "shortest_from v (Suc k0) = (s, n, k)"
        by (subst (asm) shortest_from.simps) simp
      from "1.IH" [OF False Nil this] show ?thesis .
    next
      case (Cons c cs)
      with False "1.prems" have r: "foldl (closer v k0) c cs = (s, n)" and k: "k = k0"
        by (subst (asm) shortest_from.simps, simp add: split_beta prod_eq_iff)+
      from foldl_closer_mem [of v k0 c cs] r Cons have "(s, n) \<in> set (candidates v k0)"
        by simp
      with k show ?thesis by (simp add: candidates_fit)
    qed
  qed
qed

lemma round_mag_pow53: "round_mag (2 ^ 53) = 2 ^ 53"
proof -
  have "round_mag (2 ^ 53) = of_int (round_half_even (2 ^ 53 / pow2 (max 53 (- 1022) - 52)))
                               * pow2 (max 53 (- 1022) - 52)"
    by (rule round_mag_eq) (simp_all add: pow2_def)
  also have "(2::rat) ^ 53 / pow2 (max 53 (- 1022) - 52) = of_int (2 ^ 52)"
    by (simp add: pow2_def)
  finally show ?thesis
    by (simp only: round_half_even_of_int) (simp add: pow2_def)
qed

lemma fit_exact:
  assumes "digits_fit v k n s" and "v < 2 ^ 53"
  shows "s * 10 ^ (n - k) = v"
proof -
  let ?w = "s * 10 ^ (n - k)"
  from assms(1) have r: "round_binary64 (of_nat ?w) = Fin (of_nat v)"
    by (simp add: digits_fit_def)
  show ?thesis
  proof (cases "?w < 2 ^ 53")
    case True
    then have "\<bar>int ?w\<bar> < 2 ^ 53" by (simp flip: of_nat_less_iff [where 'a = int])
    from round_binary64_int [OF this] r have "rat_of_nat ?w = of_nat v" by simp
    then show ?thesis by (simp only: of_nat_eq_iff)
  next
    case False
    then have "(2::nat) ^ 53 \<le> ?w" by simp
    then have "rat_of_nat (2 ^ 53) \<le> rat_of_nat ?w" by (simp only: of_nat_le_iff)
    then have le: "(2::rat) ^ 53 \<le> rat_of_nat ?w" by simp
    then have pos: "0 < rat_of_nat ?w" by (rule less_le_trans [rotated]) simp
    have "round_mag (2 ^ 53) \<le> round_mag (rat_of_nat ?w)"
      using le by (intro round_mag_mono) simp_all
    then have "2 ^ 53 \<le> round_mag (rat_of_nat ?w)"
      by (simp only: round_mag_pow53)
    moreover from r pos have "round_mag (rat_of_nat ?w) = of_nat v"
      by (simp add: round_binary64_def split: if_splits)
    moreover from assms(2) have "rat_of_nat v < 2 ^ 53"
      by (metis of_nat_less_iff of_nat_numeral of_nat_power)
    ultimately show ?thesis by simp
  qed
qed

lemma shortest_small:
  assumes "0 < v" and "v < 2 ^ 53"
  shows "digits_to_string (shortest_from v 1) = dec_digits v"
proof -
  obtain s n k where snk: "shortest_from v 1 = (s, n, k)"
    by (cases "shortest_from v 1") auto
  have v16: "v < 10 ^ 16" using assms(2) by simp
  then have l16: "length (dec_digits v) \<le> 16" by (simp add: length_dec_digits)
  from shortest_from_cases [OF snk] show ?thesis
  proof
    assume "s = v \<and> n = length (dec_digits v) \<and> k = n"
    with l16 snk show ?thesis by (simp add: digits_to_string_def)
  next
    assume fit: "digits_fit v k n s"
    from fit_exact [OF fit assms(2)] have w: "s * 10 ^ (n - k) = v" .
    from fit have s: "10 ^ (k - 1) \<le> s" "s < 10 ^ k" "k \<le> n" by (simp_all add: digits_fit_def)
    then have s0: "0 < s" by (auto intro: less_le_trans [rotated])
    from length_dec_digits_eq [OF s(1,2)] have k: "length (dec_digits s) = k" .
    from dec_digits_shift [OF s0, of "n - k"] w
    have d: "dec_digits v = dec_digits s @ replicate (n - k) (CHR ''0'')" by simp
    with k s(3) have "length (dec_digits v) = n" by simp
    with l16 have "n \<le> 21" by simp
    with snk d show ?thesis by (simp add: digits_to_string_def)
  qed
qed

lemma Number_toString_small:
  assumes "\<bar>i\<bar> < 2 ^ 53"
  shows "Number_toString (Fin (of_int i)) = String_int i"
proof (cases "i = 0")
  case True
  then show ?thesis by (simp add: String_int_zero Number_toString.simps)
next
  case False
  from assms have "nat \<bar>i\<bar> < 2 ^ 53" by (simp add: nat_less_iff)
  moreover from False have "0 < nat \<bar>i\<bar>" by simp
  ultimately have "digits_to_string (shortest_from (nat \<bar>i\<bar>) 1) = dec_digits (nat \<bar>i\<bar>)"
    by (rule shortest_small [rotated])
  with False show ?thesis by (auto simp: String_int_def Number_toString.simps)
qed

lemma digits_val_zeros: "digits_val (s @ replicate j (CHR ''0'')) = digits_val s * 10 ^ j"
proof (induction j)
  case 0
  then show ?case by simp
next
  case (Suc j)
  have "s @ replicate (Suc j) (CHR ''0'') = (s @ replicate j (CHR ''0'')) @ [CHR ''0'']"
    by (simp add: replicate_append_same)
  then show ?case using Suc by (simp only: digits_val_snoc) (simp add: digit_val_def)
qed

lemma dec_digits_inj:
  assumes "dec_digits a = dec_digits b"
  shows "a = b"
proof -
  have "digits_val (dec_digits a) = digits_val (dec_digits b)" by (simp only: assms)
  then show ?thesis by (simp only: digits_val_dec_digits)
qed

lemma digit_not_special:
  "is_digit c \<Longrightarrow> c \<noteq> CHR ''e'' \<and> c \<noteq> CHR ''.'' \<and> c \<noteq> CHR ''-'' \<and> c \<noteq> CHR ''+''"
  by (auto simp: is_digit_def)

lemma dec_digits_not_special:
  "c \<in> set (dec_digits n) \<Longrightarrow> c \<noteq> CHR ''e'' \<and> c \<noteq> CHR ''.'' \<and> c \<noteq> CHR ''-'' \<and> c \<noteq> CHR ''+''"
  using dec_digits_all_digits [of n] digit_not_special by (auto simp: list_all_iff)

text \<open>The digits before the exponent mark of the exponent notation.\<close>

lemma split_at_mark:
  assumes "xs @ c # ys = xs' @ c # ys'" and "c \<notin> set xs" and "c \<notin> set xs'"
  shows "xs = xs' \<and> ys = ys'"
proof -
  have t: "takeWhile (\<lambda>x. x \<noteq> c) (zs @ c # ws) = zs" if "c \<notin> set zs" for zs ws
    using that by (induction zs) auto
  have "takeWhile (\<lambda>x. x \<noteq> c) (xs @ c # ys) = takeWhile (\<lambda>x. x \<noteq> c) (xs' @ c # ys')"
    by (simp only: assms(1))
  then have "xs = xs'" by (simp only: t [OF assms(2)] t [OF assms(3)])
  with assms(1) show ?thesis by simp
qed

lemma mantissa_digits:
  "filter (\<lambda>c. c \<noteq> CHR ''.'')
     (if k = 1 then dec_digits s else hd (dec_digits s) # CHR ''.'' # tl (dec_digits s))
   = dec_digits s"
proof -
  have f: "filter (\<lambda>c. c \<noteq> CHR ''.'') (dec_digits s) = dec_digits s"
    using dec_digits_not_special [of _ s] by (simp add: filter_id_conv)
  obtain d ds where ds: "dec_digits s = d # ds"
    by (cases "dec_digits s") simp_all
  with f show ?thesis by (auto split: if_splits)
qed

lemma mantissa_no_mark:
  "CHR ''e'' \<notin> set (if k = 1 then dec_digits s else hd (dec_digits s) # CHR ''.'' # tl (dec_digits s))"
proof -
  obtain d ds where ds: "dec_digits s = d # ds"
    by (cases "dec_digits s") simp_all
  with dec_digits_not_special [of _ s] show ?thesis by auto
qed

lemma digits_to_string_inj:
  assumes eq: "digits_to_string (s1, n1, k1) = digits_to_string (s2, n2, k2)"
    and k: "k1 = length (dec_digits s1)" "k2 = length (dec_digits s2)"
  shows "s1 * 10 ^ (n1 - k1) = s2 * 10 ^ (n2 - k2)"
proof -
  have plain: "digits_val (digits_to_string (s, n, j)) = s * 10 ^ (n - j)"
    "CHR ''e'' \<notin> set (digits_to_string (s, n, j))" if "n \<le> 21" for s n j
    using that dec_digits_not_special [of "CHR ''e''" s]
    by (auto simp: digits_to_string_def digits_val_zeros digits_val_dec_digits)
  have expo: "CHR ''e'' \<in> set (digits_to_string (s, n, j))" if "\<not> n \<le> 21" for s n j
    using that by (simp add: digits_to_string_def)
  consider "n1 \<le> 21" "n2 \<le> 21" | "n1 \<le> 21" "\<not> n2 \<le> 21" | "\<not> n1 \<le> 21" "n2 \<le> 21"
    | "\<not> n1 \<le> 21" "\<not> n2 \<le> 21" by blast
  then show ?thesis
  proof cases
    case 1
    with plain(1) [of n1 s1 k1] plain(1) [of n2 s2 k2] eq show ?thesis by simp
  next
    case 2
    with plain(2) [of n1 s1 k1] expo [of n2 s2 k2] eq show ?thesis by simp
  next
    case 3
    with plain(2) [of n2 s2 k2] expo [of n1 s1 k1] eq show ?thesis by simp
  next
    case 4
    let ?m1 = "if k1 = 1 then dec_digits s1 else hd (dec_digits s1) # CHR ''.'' # tl (dec_digits s1)"
    let ?m2 = "if k2 = 1 then dec_digits s2 else hd (dec_digits s2) # CHR ''.'' # tl (dec_digits s2)"
    from 4 eq have "?m1 @ CHR ''e'' # (CHR ''+'' # dec_digits (n1 - 1))
                  = ?m2 @ CHR ''e'' # (CHR ''+'' # dec_digits (n2 - 1))"
      by (simp add: digits_to_string_def)
    from split_at_mark [OF this mantissa_no_mark mantissa_no_mark]
    have m: "?m1 = ?m2" and e: "dec_digits (n1 - 1) = dec_digits (n2 - 1)" by simp_all
    from e have "n1 - 1 = n2 - 1" by (rule dec_digits_inj)
    with 4 have n: "n1 = n2" by simp
    from m have "filter (\<lambda>c. c \<noteq> CHR ''.'') ?m1 = filter (\<lambda>c. c \<noteq> CHR ''.'') ?m2" by simp
    then have "dec_digits s1 = dec_digits s2" by (simp only: mantissa_digits)
    then have "s1 = s2" by (rule dec_digits_inj)
    with n k show ?thesis by simp
  qed
qed

lemma shortest_props:
  assumes "shortest_from v 1 = (s, n, k)" and "0 < v"
  shows "0 < s \<and> k = length (dec_digits s) \<and> k \<le> n
         \<and> ((s = v \<and> n = k) \<or> round_binary64 (of_nat (s * 10 ^ (n - k))) = Fin (of_nat v))"
  using shortest_from_cases [OF assms(1)]
proof
  assume "s = v \<and> n = length (dec_digits v) \<and> k = n"
  with assms(2) show ?thesis by simp
next
  assume fit: "digits_fit v k n s"
  then have s: "10 ^ (k - 1) \<le> s" "s < 10 ^ k" "k \<le> n" by (simp_all add: digits_fit_def)
  then have "0 < s" by (auto intro: less_le_trans [rotated])
  with length_dec_digits_eq [OF s(1,2)] s(3) fit show ?thesis by (simp add: digits_fit_def)
qed

lemma digits_to_string_head:
  assumes "0 < s"
  shows "digits_to_string (s, n, k) \<noteq> [] \<and> is_digit (hd (digits_to_string (s, n, k)))
         \<and> hd (digits_to_string (s, n, k)) \<noteq> CHR ''0''"
proof -
  obtain d ds where ds: "dec_digits s = d # ds"
    by (cases "dec_digits s") simp_all
  with hd_dec_digits [OF assms] dec_digits_all_digits [of s] show ?thesis
    by (auto simp: digits_to_string_def)
qed

lemma length_digits_to_string:
  "k = length (dec_digits s) \<Longrightarrow> k \<le> n \<Longrightarrow>
   (if n \<le> 21 then n else k) \<le> length (digits_to_string (s, n, k))"
  by (cases "dec_digits s") (auto simp: digits_to_string_def)

text \<open>The magnitude printed in at most \<open>PAD_WIDTH\<close> characters determines the number.\<close>

lemma shortest_inj_short:
  assumes "digits_to_string (shortest_from v1 1) = digits_to_string (shortest_from v2 1)"
    and "0 < v1" "0 < v2"
    and "length (digits_to_string (shortest_from v1 1)) \<le> 7"
  shows "v1 = v2"
proof -
  obtain s1 n1 k1 where t1: "shortest_from v1 1 = (s1, n1, k1)"
    by (cases "shortest_from v1 1") auto
  obtain s2 n2 k2 where t2: "shortest_from v2 1 = (s2, n2, k2)"
    by (cases "shortest_from v2 1") auto
  note p1 = shortest_props [OF t1 assms(2)] and p2 = shortest_props [OF t2 assms(3)]
  have short: "round_binary64 (of_nat (s * 10 ^ (n - k))) = Fin (of_nat v)"
    if p: "0 < s \<and> k = length (dec_digits s) \<and> k \<le> n
         \<and> ((s = v \<and> n = k) \<or> round_binary64 (of_nat (s * 10 ^ (n - k))) = Fin (of_nat v))"
      and l: "length (digits_to_string (s, n, k)) \<le> 7" for s n k v
  proof (cases "round_binary64 (of_nat (s * 10 ^ (n - k))) = Fin (of_nat v)")
    case True
    then show ?thesis .
  next
    case False
    with p have sv: "s = v" "n = k" and k: "k = length (dec_digits s)" by auto
    from length_digits_to_string [of k s n] k sv(2) l have "k \<le> 7"
      by (auto split: if_splits)
    with k sv have "v < 10 ^ 7" by (simp add: length_dec_digits)
    then have "\<bar>int v\<bar> < 2 ^ 53" by simp
    from round_binary64_int [OF this] sv show ?thesis by simp
  qed
  from assms(1,4) t1 t2 have l: "length (digits_to_string (s1, n1, k1)) \<le> 7"
    "length (digits_to_string (s2, n2, k2)) \<le> 7" by simp_all
  from p1 p2 have "s1 * 10 ^ (n1 - k1) = s2 * 10 ^ (n2 - k2)"
    using assms(1) t1 t2 by (intro digits_to_string_inj) simp_all
  with short [OF p1 l(1)] short [OF p2 l(2)] have "rat_of_nat v1 = of_nat v2" by simp
  then show ?thesis by (simp only: of_nat_eq_iff)
qed

lemma Number_toString_head:
  "Number_toString (Fin a) = ''0''
   \<or> (Number_toString (Fin a) \<noteq> [] \<and> hd (Number_toString (Fin a)) \<noteq> CHR ''0'')"
proof (cases "\<lfloor>a\<rfloor> = 0")
  case True
  then show ?thesis by (simp add: Number_toString.simps)
next
  case False
  obtain s n k where t: "shortest_from (nat \<bar>\<lfloor>a\<rfloor>\<bar>) 1 = (s, n, k)"
    by (cases "shortest_from (nat \<bar>\<lfloor>a\<rfloor>\<bar>) 1") auto
  from False have "0 < nat \<bar>\<lfloor>a\<rfloor>\<bar>" by simp
  from shortest_props [OF t this] have "0 < s" by simp
  from digits_to_string_head [OF this, of n k] False t show ?thesis
    by (auto simp: Number_toString.simps)
qed

lemma Number_toString_inj_short:
  assumes eq: "Number_toString (Fin (of_int a)) = Number_toString (Fin (of_int b))"
    and len: "length (Number_toString (Fin (of_int a))) \<le> 7"
  shows "a = b"
proof -
  have head: "digits_to_string (shortest_from (nat \<bar>i\<bar>) 1) \<noteq> []
      \<and> is_digit (hd (digits_to_string (shortest_from (nat \<bar>i\<bar>) 1)))
      \<and> hd (digits_to_string (shortest_from (nat \<bar>i\<bar>) 1)) \<noteq> CHR ''0''" if "i \<noteq> 0" for i :: int
  proof -
    obtain s n k where t: "shortest_from (nat \<bar>i\<bar>) 1 = (s, n, k)"
      by (cases "shortest_from (nat \<bar>i\<bar>) 1") auto
    from that have "0 < nat \<bar>i\<bar>" by simp
    from shortest_props [OF t this] have "0 < s" by simp
    from digits_to_string_head [OF this, of n k] t show ?thesis by simp
  qed
  let ?T = "\<lambda>i::int. digits_to_string (shortest_from (nat \<bar>i\<bar>) 1)"
  have str: "Number_toString (Fin (of_int i))
               = (if i = 0 then ''0'' else (if i < 0 then ''-'' else []) @ ?T i)" for i :: int
    by (simp add: Number_toString.simps)
  have nz: "a = 0 \<longleftrightarrow> b = 0"
    using eq head [of a] head [of b] unfolding str
    by (cases "?T a"; cases "?T b") (auto simp: is_digit_def split: if_splits)
  show ?thesis
  proof (cases "a = 0")
    case True
    with nz show ?thesis by simp
  next
    case False
    with nz have b: "b \<noteq> 0" by simp
    have sign: "a < 0 \<longleftrightarrow> b < 0"
      using eq head [OF False] head [OF b] False b unfolding str
      by (cases "?T a"; cases "?T b") (auto simp: is_digit_def split: if_splits)
    with eq False b have T: "?T a = ?T b" unfolding str by (auto split: if_splits)
    from len False have "length (?T a) \<le> 7" unfolding str by (auto split: if_splits)
    with T False b have "nat \<bar>a\<bar> = nat \<bar>b\<bar>" by (intro shortest_inj_short) simp_all
    with sign show ?thesis by auto
  qed
qed

lemma pad_zeros_inj:
  assumes "padStart w (CHR ''0'') s = padStart w (CHR ''0'') t"
    and "s = ''0'' \<or> (s \<noteq> [] \<and> hd s \<noteq> CHR ''0'')"
    and "t = ''0'' \<or> (t \<noteq> [] \<and> hd t \<noteq> CHR ''0'')"
  shows "s = t"
proof -
  have d: "dropWhile (\<lambda>c. c = CHR ''0'') (padStart w (CHR ''0'') u) = (if u = ''0'' then [] else u)"
    if "u = ''0'' \<or> (u \<noteq> [] \<and> hd u \<noteq> CHR ''0'')" for u
    using that by (cases u) (auto simp: padStart_def dropWhile_append)
  from assms(1) d [OF assms(2)] d [OF assms(3)]
  have "(if s = ''0'' then [] else s) = (if t = ''0'' then [] else t)" by simp
  with assms(2,3) show ?thesis by (auto split: if_splits)
qed

section \<open>Properties of the identity codec\<close>

lemma digits_val_leading_zeros: "digits_val (replicate k (CHR ''0'') @ s) = digits_val s"
proof -
  have "foldl (\<lambda>a c. 10 * a + digit_val c) 0 (replicate k (CHR ''0'')) = 0"
    by (induction k) (simp_all add: digit_val_def)
  then show ?thesis by (simp add: digits_val_def)
qed

lemma Math_round_integral: "Math_round x = Fin a \<Longrightarrow> of_int \<lfloor>a\<rfloor> = a"
  by (cases x) auto

lemma toNewId_finite:
  assumes "Math_round (js_mul m SCALE) = Fin a"
  shows "toNewId m = Inr (''at-main-mi'' @ padStart 7 (CHR ''0'') (Number_toString (Fin a)))"
  using assms by (simp add: toNewId_def mileToToken_def Let_def TRAIL_CODE_def ALIGNMENT_def PAD_WIDTH_def)

lemma toNewId_not_finite:
  assumes "\<not> isFinite (Math_round (js_mul m SCALE))"
  shows "toNewId m = Inl (BadMile m)"
  using assms by (simp add: toNewId_def mileToToken_def Let_def)

lemma js_mul_not_finite: "\<not> isFinite m \<Longrightarrow> \<not> isFinite (Math_round (js_mul m SCALE))"
  by (cases m) (simp_all add: SCALE_def)

lemma Number_toString_integral:
  assumes "of_int \<lfloor>a\<rfloor> = a" and "\<bar>a\<bar> < 2 ^ 53"
  shows "Number_toString (Fin a) = String_int \<lfloor>a\<rfloor>"
proof -
  have "rat_of_int \<bar>\<lfloor>a\<rfloor>\<bar> = \<bar>rat_of_int \<lfloor>a\<rfloor>\<bar>" by simp
  also have "\<dots> = \<bar>a\<bar>" by (simp only: assms(1))
  finally have "rat_of_int \<bar>\<lfloor>a\<rfloor>\<bar> < 2 ^ 53" using assms(2) by simp
  then have "\<bar>\<lfloor>a\<rfloor>\<bar> < 2 ^ 53"
    by (metis of_int_less_iff of_int_numeral of_int_power)
  then have "Number_toString (Fin (of_int \<lfloor>a\<rfloor>)) = String_int \<lfloor>a\<rfloor>"
    by (rule Number_toString_small)
  then show ?thesis by (simp only: assms(1))
qed

lemma Number_toString_numeral [simp]:
  "numeral k < (2::int) ^ 53 \<Longrightarrow> Number_toString (Fin (numeral k)) = String_int (numeral k)"
  using Number_toString_small [of "numeral k"] by simp

lemma seven_digit_token:
  assumes "0 \<le> n" "n < 10 ^ 7"
  shows "length (padStart 7 (CHR ''0'') (String_int n)) = 7
         \<and> list_all is_digit (padStart 7 (CHR ''0'') (String_int n))
         \<and> int (digits_val (padStart 7 (CHR ''0'') (String_int n))) = n"
proof -
  from assms have s: "String_int n = dec_digits (nat n)" by (simp add: String_int_def)
  from assms have "nat n < 10 ^ 7" by simp
  then have len: "length (dec_digits (nat n)) \<le> 7" by (simp add: length_dec_digits)
  have z: "list_all is_digit (replicate k (CHR ''0''))" for k
    by (induction k) (simp_all add: is_digit_def)
  from len z assms show ?thesis
    by (simp add: s padStart_def digits_val_leading_zeros digits_val_dec_digits
        dec_digits_all_digits)
qed

text \<open>
  C1, as the code has it. When the rounded scaled mile \<open>Math.round(mile * 1000)\<close> is a
  finite number \<open>a\<close>, \<open>toNewId\<close> returns \<open>at-main-mi\<close> followed by \<open>String(a)\<close> left-padded with
  zeros to seven characters. Below \<open>2^53\<close> in magnitude \<open>String(a)\<close> is the decimal digits
  of \<open>a\<close> (with a minus sign for a negative one), and for \<open>0 \<le> a < 10^7\<close> the token is
  exactly seven digits of value \<open>a\<close>. The double nearest to 2190.3 gives
  \<open>at-main-mi2190300\<close>. Every non-finite mile is refused, and so is a finite mile whose
  product with 1000 is no longer finite.
\<close>

theorem C1_toNewId:
  "(Math_round (js_mul (Fin q) SCALE) = Fin a \<longrightarrow>
      toNewId (Fin q) = Inr (''at-main-mi'' @ padStart 7 (CHR ''0'') (Number_toString (Fin a))))
   \<and> (Math_round (js_mul (Fin q) SCALE) = Fin a \<and> \<bar>a\<bar> < 2 ^ 53 \<longrightarrow>
      Number_toString (Fin a) = String_int \<lfloor>a\<rfloor> \<and> of_int \<lfloor>a\<rfloor> = a)
   \<and> (Math_round (js_mul (Fin q) SCALE) = Fin a \<and> 0 \<le> a \<and> a < 10 ^ 7 \<longrightarrow>
      (\<exists>tok. toNewId (Fin q) = Inr (''at-main-mi'' @ tok) \<and> length tok = 7
             \<and> list_all is_digit tok \<and> of_nat (digits_val tok) = a))
   \<and> toNewId (round_binary64 (21903 / 10)) = Inr ''at-main-mi2190300''
   \<and> (\<not> isFinite m \<longrightarrow> toNewId m = Inl (BadMile m))
   \<and> (\<not> isFinite (js_mul (Fin q') SCALE) \<longrightarrow> toNewId (Fin q') = Inl (BadMile (Fin q')))"
proof (intro conjI impI)
  assume "Math_round (js_mul (Fin q) SCALE) = Fin a"
  then show "toNewId (Fin q) = Inr (''at-main-mi'' @ padStart 7 (CHR ''0'') (Number_toString (Fin a)))"
    by (rule toNewId_finite)
next
  assume h: "Math_round (js_mul (Fin q) SCALE) = Fin a \<and> \<bar>a\<bar> < 2 ^ 53"
  then have int: "of_int \<lfloor>a\<rfloor> = a" by (auto dest: Math_round_integral)
  with h show "Number_toString (Fin a) = String_int \<lfloor>a\<rfloor>"
    by (simp add: Number_toString_integral)
  from int show "of_int \<lfloor>a\<rfloor> = a" .
next
  assume h: "Math_round (js_mul (Fin q) SCALE) = Fin a \<and> 0 \<le> a \<and> a < 10 ^ 7"
  then have int: "of_int \<lfloor>a\<rfloor> = a" by (auto dest: Math_round_integral)
  from h have "0 \<le> \<lfloor>a\<rfloor>" by simp
  moreover from h int have "\<lfloor>a\<rfloor> < 10 ^ 7"
    by (metis floor_less_iff of_int_numeral of_int_power)
  ultimately have tok: "length (padStart 7 (CHR ''0'') (String_int \<lfloor>a\<rfloor>)) = 7
         \<and> list_all is_digit (padStart 7 (CHR ''0'') (String_int \<lfloor>a\<rfloor>))
         \<and> int (digits_val (padStart 7 (CHR ''0'') (String_int \<lfloor>a\<rfloor>))) = \<lfloor>a\<rfloor>"
    by (rule seven_digit_token)
  then have "rat_of_int (int (digits_val (padStart 7 (CHR ''0'') (String_int \<lfloor>a\<rfloor>)))) = a"
    using int by simp
  then have v: "of_nat (digits_val (padStart 7 (CHR ''0'') (String_int \<lfloor>a\<rfloor>))) = a"
    by simp
  from h have "\<bar>a\<bar> < 2 ^ 53" by simp
  with int have "Number_toString (Fin a) = String_int \<lfloor>a\<rfloor>"
    by (rule Number_toString_integral)
  with tok v h show "\<exists>tok. toNewId (Fin q) = Inr (''at-main-mi'' @ tok) \<and> length tok = 7
             \<and> list_all is_digit tok \<and> of_nat (digits_val tok) = a"
    by (auto simp: toNewId_finite)
next
  have "js_mul (round_binary64 (21903 / 10)) SCALE = Fin 2190300"
    by (simp only: SCALE_def mul_2190_3)
  then have "Math_round (js_mul (round_binary64 (21903 / 10)) SCALE) = Fin 2190300"
    by simp
  then have "toNewId (round_binary64 (21903 / 10))
               = Inr (''at-main-mi'' @ padStart 7 (CHR ''0'') (Number_toString (Fin 2190300)))"
    by (rule toNewId_finite)
  then show "toNewId (round_binary64 (21903 / 10)) = Inr ''at-main-mi2190300''"
    by (simp add: padStart_def String_int_def dec_digits.simps digit_char_def)
next
  assume "\<not> isFinite m"
  then show "toNewId m = Inl (BadMile m)"
    by (simp add: toNewId_not_finite js_mul_not_finite)
next
  assume "\<not> isFinite (js_mul (Fin q') SCALE)"
  then have "\<not> isFinite (Math_round (js_mul (Fin q') SCALE))"
    by (cases "js_mul (Fin q') SCALE") auto
  then show "toNewId (Fin q') = Inl (BadMile (Fin q'))" by (rule toNewId_not_finite)
qed

text \<open>
  C1 as stated fails at the finite mile \<open>2^1020\<close>: its product with 1000 overflows to
  \<open>Infinity\<close>, and \<open>toNewId\<close> throws.
\<close>

theorem C1_counterexample:
  "isFinite (Fin (2 ^ 1020)) \<and> toNewId (Fin (2 ^ 1020)) = Inl (BadMile (Fin (2 ^ 1020)))"
proof -
  have "js_mul (Fin (2 ^ 1020)) SCALE = PInf"
    by (simp only: SCALE_def overflow_example)
  then have "\<not> isFinite (Math_round (js_mul (Fin (2 ^ 1020)) SCALE))"
    by simp
  then show ?thesis by (simp add: toNewId_not_finite)
qed

text \<open>C1 at mile 1, at \<open>Infinity\<close> and at \<open>2^1020\<close>.\<close>

theorem C1_witness:
  "Math_round (js_mul (Fin 1) SCALE) = Fin 1000 \<and> \<bar>1000 :: rat\<bar> < 2 ^ 53
   \<and> (0::rat) \<le> 1000 \<and> (1000::rat) < 10 ^ 7
   \<and> Number_toString (Fin 1000) = ''1000''
   \<and> toNewId (Fin 1) = Inr ''at-main-mi0001000''
   \<and> \<not> isFinite PInf \<and> toNewId PInf = Inl (BadMile PInf)
   \<and> \<not> isFinite (js_mul (Fin (2 ^ 1020)) SCALE)
   \<and> toNewId (Fin (2 ^ 1020)) = Inl (BadMile (Fin (2 ^ 1020)))"
proof -
  have "js_mul (Fin 1) SCALE = Fin 1000"
    by (simp only: SCALE_def mul_1)
  then have r: "Math_round (js_mul (Fin 1) SCALE) = Fin 1000"
    by simp
  have "js_mul (Fin (2 ^ 1020)) SCALE = PInf"
    by (simp only: SCALE_def overflow_example)
  then have o: "\<not> isFinite (js_mul (Fin (2 ^ 1020)) SCALE)"
    by simp
  have d: "String_int 1000 = ''1000''"
    by (simp add: String_int_def dec_digits.simps digit_char_def)
  have f: "\<lfloor>1000::rat\<rfloor> = 1000" by simp
  note c = C1_toNewId [where q = 1 and a = 1000 and m = PInf and q' = "2 ^ 1020"]
  from c r have "Number_toString (Fin 1000) = String_int \<lfloor>1000::rat\<rfloor>"
    by simp
  then have s: "Number_toString (Fin 1000) = ''1000''"
    by (simp only: f d)
  from c r have "toNewId (Fin 1) = Inr (''at-main-mi'' @ padStart 7 (CHR ''0'') (Number_toString (Fin 1000)))"
    by blast
  then have t: "toNewId (Fin 1) = Inr ''at-main-mi0001000''"
    by (simp only: s) (simp add: padStart_def replicate_numeral)
  from c o have "toNewId PInf = Inl (BadMile PInf)"
    and "toNewId (Fin (2 ^ 1020)) = Inl (BadMile (Fin (2 ^ 1020)))" by simp_all
  with r s t o show ?thesis by simp
qed

text \<open>
  C2: two miles whose rounded thousandths are different numbers, each printed in at
  most \<open>PAD_WIDTH\<close> characters, get different ids.
\<close>

theorem C2_distinct_miles_distinct_ids:
  assumes "Math_round (js_mul m1 SCALE) = Fin a1"
    and "Math_round (js_mul m2 SCALE) = Fin a2"
    and "a1 \<noteq> a2"
    and "length (Number_toString (Fin a1)) \<le> PAD_WIDTH"
    and "length (Number_toString (Fin a2)) \<le> PAD_WIDTH"
  shows "\<exists>i1 i2. toNewId m1 = Inr i1 \<and> toNewId m2 = Inr i2 \<and> i1 \<noteq> i2"
proof -
  from assms(1,2) have i: "of_int \<lfloor>a1\<rfloor> = a1" "of_int \<lfloor>a2\<rfloor> = a2"
    by (auto dest: Math_round_integral)
  have "Number_toString (Fin a1) \<noteq> Number_toString (Fin a2)"
  proof
    assume eq: "Number_toString (Fin a1) = Number_toString (Fin a2)"
    have "Number_toString (Fin (of_int \<lfloor>a1\<rfloor>)) = Number_toString (Fin (of_int \<lfloor>a2\<rfloor>))"
      by (simp only: i eq)
    moreover have "length (Number_toString (Fin (of_int \<lfloor>a1\<rfloor>))) \<le> 7"
      using assms(4) by (simp only: i PAD_WIDTH_def)
    ultimately have "\<lfloor>a1\<rfloor> = \<lfloor>a2\<rfloor>" by (rule Number_toString_inj_short)
    with i assms(3) show False by metis
  qed
  then have "padStart 7 (CHR ''0'') (Number_toString (Fin a1))
               \<noteq> padStart 7 (CHR ''0'') (Number_toString (Fin a2))"
    using pad_zeros_inj [OF _ Number_toString_head Number_toString_head] by blast
  then show ?thesis
    by (simp add: toNewId_finite [OF assms(1)] toNewId_finite [OF assms(2)])
qed

text \<open>C2 at mile 1 and at the double nearest to 2190.3.\<close>

theorem C2_witness:
  "\<exists>i1 i2. toNewId (Fin 1) = Inr i1 \<and> toNewId (round_binary64 (21903 / 10)) = Inr i2 \<and> i1 \<noteq> i2"
proof -
  have "js_mul (Fin 1) SCALE = Fin 1000"
    by (simp only: SCALE_def mul_1)
  then have 1: "Math_round (js_mul (Fin 1) SCALE) = Fin 1000"
    by simp
  have "js_mul (round_binary64 (21903 / 10)) SCALE = Fin 2190300"
    by (simp only: SCALE_def mul_2190_3)
  then have 2: "Math_round (js_mul (round_binary64 (21903 / 10)) SCALE) = Fin 2190300"
    by simp
  have 3: "(1000::rat) \<noteq> 2190300" by simp
  have 4: "length (Number_toString (Fin 1000)) \<le> PAD_WIDTH"
    by (simp add: PAD_WIDTH_def String_int_def dec_digits.simps)
  have 5: "length (Number_toString (Fin 2190300)) \<le> PAD_WIDTH"
    by (simp add: PAD_WIDTH_def String_int_def dec_digits.simps)
  from C2_distinct_miles_distinct_ids [OF 1 2 3 4 5] show ?thesis .
qed

section \<open>Properties of the mile resolution\<close>

text \<open>
  C9, at a point whose \<open>mile\<close> is the non-numeric string \<open>"abc"\<close> and whose
  \<open>mile_est\<close> is 12.5: \<open>mileFromPoint\<close> of the migration script takes \<open>mile\<close> because it is
  neither null nor empty, gets NaN and throws, although \<open>mile_est\<close> is a finite number;
  \<open>normalizePoint\<close> of the normalisation script checks that \<open>mile\<close> converts to a finite
  number and falls back to \<open>mile_est\<close>.
\<close>

theorem C9_mileFromPoint_no_fallback:
  "mileFromPoint \<lparr>point_id = ''GA_0012_5'', legacy_id = None, mile = Str ''abc'',
                   mile_est = Num (Fin (25 / 2)), lat = Num (Fin 34), lon = Num (Fin (- 84)),
                   state = ''GA''\<rparr>
     = Inl (MissingMile ''GA_0012_5'')
   \<and> normalizePoint \<lparr>point_id = ''GA_0012_5'', legacy_id = None, mile = Str ''abc'',
                   mile_est = Num (Fin (25 / 2)), lat = Num (Fin 34), lon = Num (Fin (- 84)),
                   state = ''GA''\<rparr> 0
     = Inr \<lparr>point_id = ''GA_0012_5'', legacy_id = None, mile = Num (Fin (25 / 2)),
            mile_est = Undefined, lat = Num (Fin 34), lon = Num (Fin (- 84)),
            state = ''GA''\<rparr>"
  by (simp add: mileFromPoint_def normalizePoint_def StringToNumber_def trim_def is_ws_def
      parse_nondecimal_def parse_unsigned_decimal_def is_digit_def)

section \<open>Properties of the re-keying script\<close>

lemma build_maps_missing_legacy:
  "p \<in> set ps \<Longrightarrow> legacy_id p = None \<Longrightarrow>
   \<exists>q \<in> set ps. build_maps ps l n = Inl (PointMissingLegacyId (point_id q))"
proof (induction ps arbitrary: l n)
  case Nil
  then show ?case by simp
next
  case (Cons a ps)
  show ?case
  proof (cases "legacy_id a = None \<or> legacy_id a = Some []")
    case True
    then show ?thesis by (auto simp: Let_def)
  next
    case False
    then obtain li where li: "legacy_id a = Some li" "li \<noteq> []" by auto
    from False Cons.prems have "p \<in> set ps" by auto
    from Cons.IH [OF this Cons.prems(2)] obtain q where
      "q \<in> set ps" "build_maps ps (l(li \<mapsto> point_id a)) (n(point_id a \<mapsto> li))
                       = Inl (PointMissingLegacyId (point_id q))"
      by blast
    with li show ?thesis by (auto simp: Let_def)
  qed
qed

text \<open>
  C10: when \<open>points.json\<close> holds a point without \<open>legacy_id\<close>, the re-keying script
  throws, leaves the disk as it was, and has neither read, copied nor written
  \<open>historical_weather.json\<close> (it has at most tested that the file exists).
\<close>

theorem C10_missing_legacy_id_aborts_before_normals:
  assumes "points_file d = Parsed (PointsArray points)"
    and "p \<in> set points" and "legacy_id p = None"
  shows "\<exists>e tr. mixed_main d = (Inl e, d, tr)
           \<and> (e = MissingFile NORMALS_PATH
                \<or> (\<exists>q \<in> set points. e = PointMissingLegacyId (point_id q)))
           \<and> ReadFile NORMALS_PATH \<notin> set tr
           \<and> CopyFile NORMALS_PATH \<notin> set tr
           \<and> WriteFile NORMALS_PATH \<notin> set tr"
proof (cases "normals_file d = Missing")
  case True
  with assms(1) show ?thesis by (simp add: mixed_main_def)
next
  case False
  from build_maps_missing_legacy [OF assms(2,3)] obtain q where
    q: "q \<in> set points"
       "build_maps points Map.empty Map.empty = Inl (PointMissingLegacyId (point_id q))"
    by blast
  have neq: "POINTS_PATH \<noteq> NORMALS_PATH"
    by (simp add: POINTS_PATH_def NORMALS_PATH_def)
  from False assms(1) q(2) have
    "mixed_main d = (Inl (PointMissingLegacyId (point_id q)), d,
       [ExistsSync POINTS_PATH, ExistsSync NORMALS_PATH, ReadFile POINTS_PATH])"
    by (simp add: mixed_main_def)
  with q(1) neq show ?thesis by auto
qed

theorem C10_witness:
  "\<exists>e tr. mixed_main
       \<lparr>points_file = Parsed (PointsArray
          [\<lparr>point_id = ''at-main-mi0010000'', legacy_id = None, mile = Num (Fin 10),
            mile_est = Undefined, lat = Num (Fin 34), lon = Num (Fin (- 84)),
            state = ''GA''\<rparr>]),
        normals_file = Parsed (RootObject None (Some [])),
        points_backups = [], normals_backups = []\<rparr>
     = (Inl e,
        \<lparr>points_file = Parsed (PointsArray
          [\<lparr>point_id = ''at-main-mi0010000'', legacy_id = None, mile = Num (Fin 10),
            mile_est = Undefined, lat = Num (Fin 34), lon = Num (Fin (- 84)),
            state = ''GA''\<rparr>]),
        normals_file = Parsed (RootObject None (Some [])),
        points_backups = [], normals_backups = []\<rparr>, tr)
     \<and> ReadFile NORMALS_PATH \<notin> set tr"
  using C10_missing_legacy_id_aborts_before_normals
    [of "\<lparr>points_file = Parsed (PointsArray
          [\<lparr>point_id = ''at-main-mi0010000'', legacy_id = None, mile = Num (Fin 10),
            mile_est = Undefined, lat = Num (Fin 34), lon = Num (Fin (- 84)),
            state = ''GA''\<rparr>]),
        normals_file = Parsed (RootObject None (Some [])),
        points_backups = [], normals_backups = []\<rparr>"
        "[\<lparr>point_id = ''at-main-mi0010000'', legacy_id = None, mile = Num (Fin 10),
            mile_est = Undefined, lat = Num (Fin 34), lon = Num (Fin (- 84)),
            state = ''GA''\<rparr>]"
        "\<lparr>point_id = ''at-main-mi0010000'', legacy_id = None, mile = Num (Fin 10),
            mile_est = Undefined, lat = Num (Fin 34), lon = Num (Fin (- 84)),
            state = ''GA''\<rparr>"]
  by auto

section \<open>Properties of the migration\<close>

lemma ensureUniqueIds_from_iff:
  "ensureUniqueIds_from seen ids label = Inr () \<longleftrightarrow> distinct ids \<and> set ids \<inter> set seen = {}"
  by (induction seen ids label rule: ensureUniqueIds_from.induct) auto

lemma ensureUniqueIds_iff: "ensureUniqueIds ids label = Inr () \<longleftrightarrow> distinct ids"
  by (simp add: ensureUniqueIds_def ensureUniqueIds_from_iff)



lemma mileFromPoint_rekeyed:
  "mileFromPoint (p\<lparr>legacy_id := l, point_id := i\<rparr>) = Inr x \<longleftrightarrow> mileFromPoint p = Inr x"
  by (simp add: mileFromPoint_def Let_def)

lemma update_points_migrated:
  "update_points ps m = Inr (ps', m') \<Longrightarrow>
   \<forall>p' \<in> set ps'. \<exists>x. mileFromPoint p' = Inr x \<and> toNewId x = Inr (point_id p') \<and> legacy_id p' \<noteq> None"
proof (induction ps arbitrary: m ps' m')
  case Nil
  then show ?case by simp
next
  case (Cons p ps)
  from Cons.prems obtain x newId qs where
    x: "mileFromPoint p = Inr x" "toNewId x = Inr newId"
    and rec: "update_points ps (m(point_id p \<mapsto> newId)) = Inr (qs, m')"
    and ps': "ps' = p\<lparr>legacy_id := (case legacy_id p of None \<Rightarrow> Some (point_id p) | Some l \<Rightarrow> Some l),
                       point_id := newId\<rparr> # qs"
    by (auto simp: Let_def split: sum.splits prod.splits)
  from Cons.IH [OF rec] x show ?case
    by (auto simp: ps' mileFromPoint_rekeyed split: option.splits)
qed

lemma update_points_values:
  "update_points ps m = Inr (ps', m') \<Longrightarrow> m' k = Some v \<Longrightarrow>
   m k = Some v \<or> v \<in> point_id ` set ps'"
proof (induction ps arbitrary: m ps')
  case Nil
  then show ?case by simp
next
  case (Cons p ps)
  from Cons.prems(1) obtain x newId qs where
    rec: "update_points ps (m(point_id p \<mapsto> newId)) = Inr (qs, m')"
    and ps': "ps' = p\<lparr>legacy_id := (case legacy_id p of None \<Rightarrow> Some (point_id p) | Some l \<Rightarrow> Some l),
                       point_id := newId\<rparr> # qs"
    by (auto simp: Let_def split: sum.splits prod.splits)
  from Cons.IH [OF rec Cons.prems(2)] show ?case
    by (auto simp: ps' split: if_splits)
qed

lemma update_points_other_keys:
  "update_points ps m = Inr (ps', m') \<Longrightarrow> k \<notin> point_id ` set ps \<Longrightarrow> m' k = m k"
proof (induction ps arbitrary: m ps')
  case Nil
  then show ?case by simp
next
  case (Cons p ps)
  from Cons.prems(1) obtain x newId qs where
    rec: "update_points ps (m(point_id p \<mapsto> newId)) = Inr (qs, m')"
    by (auto simp: Let_def split: sum.splits prod.splits)
  from Cons.IH [OF rec] Cons.prems(2) show ?case by auto
qed

lemma update_points_again:
  assumes "\<forall>p \<in> set ps. \<exists>x. mileFromPoint p = Inr x \<and> toNewId x = Inr (point_id p) \<and> legacy_id p \<noteq> None"
  shows "\<exists>m'. update_points ps m = Inr (ps, m') \<and> (\<forall>k \<in> point_id ` set ps. m' k = Some k)"
  using assms
proof (induction ps arbitrary: m)
  case Nil
  then show ?case by simp
next
  case (Cons p ps)
  from Cons.prems obtain x l where
    x: "mileFromPoint p = Inr x" "toNewId x = Inr (point_id p)" "legacy_id p = Some l"
    by auto
  from Cons.prems have "\<forall>p \<in> set ps. \<exists>x. mileFromPoint p = Inr x \<and> toNewId x = Inr (point_id p) \<and> legacy_id p \<noteq> None"
    by simp
  from Cons.IH [OF this, of "m(point_id p \<mapsto> point_id p)"] obtain m' where
    m': "update_points ps (m(point_id p \<mapsto> point_id p)) = Inr (ps, m')"
        "\<forall>k \<in> point_id ` set ps. m' k = Some k"
    by blast
  have "m' (point_id p) = Some (point_id p)"
  proof (cases "point_id p \<in> point_id ` set ps")
    case True
    with m'(2) show ?thesis by blast
  next
    case False
    from update_points_other_keys [OF m'(1) False] show ?thesis by simp
  qed
  with m' x show ?case by (auto simp: Let_def)
qed

lemma update_points_keeps_legacy:
  "update_points ps m = Inr (ps', m') \<Longrightarrow>
   list_all2 (\<lambda>p p'. legacy_id p \<noteq> None \<longrightarrow> legacy_id p' = legacy_id p) ps ps'"
proof (induction ps arbitrary: m ps')
  case Nil
  then show ?case by simp
next
  case (Cons p ps)
  from Cons.prems(1) obtain x newId qs where
    rec: "update_points ps (m(point_id p \<mapsto> newId)) = Inr (qs, m')"
    and ps': "ps' = p\<lparr>legacy_id := (case legacy_id p of None \<Rightarrow> Some (point_id p) | Some l \<Rightarrow> Some l),
                       point_id := newId\<rparr> # qs"
    by (auto simp: Let_def split: sum.splits prod.splits)
  from Cons.IH [OF rec] show ?case by (auto simp: ps')
qed

lemma update_normals_migrated:
  "update_normals m rs = Inr rs' \<Longrightarrow>
   \<forall>r' \<in> set rs'. \<exists>k v. rec_id r' = IdString v \<and> m k = Some v \<and> v \<noteq> [] \<and> rec_legacy_id r' \<noteq> None"
proof (induction rs arbitrary: rs')
  case Nil
  then show ?case by simp
next
  case (Cons r rs)
  from Cons.prems obtain k v qs where
    k: "rec_id r = IdString k" "m k = Some v" "v \<noteq> []"
    and rec: "update_normals m rs = Inr qs"
    and rs': "rs' = r\<lparr>rec_legacy_id := (case rec_legacy_id r of None \<Rightarrow> Some k | Some l \<Rightarrow> Some l),
                       rec_id := IdString v\<rparr> # qs"
    by (cases "rec_id r") (auto simp: Let_def split: option.splits sum.splits if_splits)
  from Cons.IH [OF rec] k show ?case
    by (auto simp: rs' split: option.splits)
qed

lemma update_normals_again:
  assumes "\<forall>r \<in> set rs. \<exists>v. rec_id r = IdString v \<and> m v = Some v \<and> v \<noteq> [] \<and> rec_legacy_id r \<noteq> None"
  shows "update_normals m rs = Inr rs"
  using assms by (induction rs) auto

lemma update_normals_keeps_legacy:
  "update_normals m rs = Inr rs' \<Longrightarrow>
   list_all2 (\<lambda>r r'. rec_legacy_id r \<noteq> None \<longrightarrow> rec_legacy_id r' = rec_legacy_id r) rs rs'"
proof (induction rs arbitrary: rs')
  case Nil
  then show ?case by simp
next
  case (Cons r rs)
  from Cons.prems obtain k v qs where
    rec: "update_normals m rs = Inr qs"
    and rs': "rs' = r\<lparr>rec_legacy_id := (case rec_legacy_id r of None \<Rightarrow> Some k | Some l \<Rightarrow> Some l),
                       rec_id := IdString v\<rparr> # qs"
    by (cases "rec_id r") (auto simp: Let_def split: option.splits sum.splits if_splits)
  from Cons.IH [OF rec] show ?case by (auto simp: rs')
qed

lemma migration_meta_idem: "migration_meta (Some (migration_meta m)) = migration_meta m"
  by (simp add: migration_meta_def update_triv update_conv')

lemma migrate_plan_InrE:
  assumes "migrate_plan pf nf = Inr (ups, nr)"
  obtains points m nroot arr md uarr where
    "pf = Parsed (PointsArray points)"
    "update_points points Map.empty = Inr (ups, m)"
    "distinct (map point_id ups)"
    "nf = Parsed nroot"
    "getNormalsArray nroot = Inr (arr, md)"
    "update_normals m arr = Inr uarr"
    "distinct (map (\<lambda>r. String_id (rec_id r)) uarr)"
    "nr = (case nroot of RootObject mt _ \<Rightarrow> RootObject (Some (migration_meta mt)) (Some uarr)
                      | _ \<Rightarrow> RootArray uarr)"
  using assms unfolding migrate_plan_def
  by (auto split: if_splits file_content.splits points_json.splits sum.splits prod.splits
           simp: ensureUniqueIds_iff)

lemma migrate_plan_InrI:
  assumes "pf = Parsed (PointsArray points)"
    "update_points points Map.empty = Inr (ups, m)"
    "distinct (map point_id ups)"
    "nf = Parsed nroot"
    "getNormalsArray nroot = Inr (arr, md)"
    "update_normals m arr = Inr uarr"
    "distinct (map (\<lambda>r. String_id (rec_id r)) uarr)"
  shows "migrate_plan pf nf =
           Inr (ups, (case nroot of RootObject mt _ \<Rightarrow> RootObject (Some (migration_meta mt)) (Some uarr)
                      | _ \<Rightarrow> RootArray uarr))"
  using assms by (simp add: migrate_plan_def ensureUniqueIds_iff [THEN iffD2])

lemma migrate_plan_again:
  assumes "migrate_plan pf nf = Inr (ups, nr)"
  shows "migrate_plan (Parsed (PointsArray ups)) (Parsed nr) = Inr (ups, nr)"
proof -
  from assms obtain points m nroot arr md uarr where
    up: "update_points points Map.empty = Inr (ups, m)"
    and dp: "distinct (map point_id ups)"
    and ga: "getNormalsArray nroot = Inr (arr, md)"
    and un: "update_normals m arr = Inr uarr"
    and dn: "distinct (map (\<lambda>r. String_id (rec_id r)) uarr)"
    and nr: "nr = (case nroot of RootObject mt _ \<Rightarrow> RootObject (Some (migration_meta mt)) (Some uarr)
                      | _ \<Rightarrow> RootArray uarr)"
    by (rule migrate_plan_InrE)
  from update_points_again [OF update_points_migrated [OF up], of Map.empty] obtain m2 where
    up2: "update_points ups Map.empty = Inr (ups, m2)"
    and m2: "\<forall>k \<in> point_id ` set ups. m2 k = Some k"
    by blast
  have "\<forall>r \<in> set uarr. \<exists>v. rec_id r = IdString v \<and> m2 v = Some v \<and> v \<noteq> [] \<and> rec_legacy_id r \<noteq> None"
  proof
    fix r assume "r \<in> set uarr"
    with update_normals_migrated [OF un] obtain k v where
      v: "rec_id r = IdString v" "m k = Some v" "v \<noteq> []" "rec_legacy_id r \<noteq> None"
      by blast
    from update_points_values [OF up v(2)] have "v \<in> point_id ` set ups" by simp
    with m2 have "m2 v = Some v" by blast
    with v show "\<exists>v. rec_id r = IdString v \<and> m2 v = Some v \<and> v \<noteq> [] \<and> rec_legacy_id r \<noteq> None"
      by blast
  qed
  then have un2: "update_normals m2 uarr = Inr uarr" by (rule update_normals_again)
  obtain md2 where ga2: "getNormalsArray nr = Inr (uarr, md2)"
    by (cases nroot) (auto simp: nr getNormalsArray_def)
  have "(case nr of RootObject mt _ \<Rightarrow> RootObject (Some (migration_meta mt)) (Some uarr)
                      | _ \<Rightarrow> RootArray uarr) = nr"
    by (cases nroot) (auto simp: nr migration_meta_idem)
  with migrate_plan_InrI [OF refl up2 dp refl ga2 un2 dn] show ?thesis by simp
qed

text \<open>
  C3: a second run of the migration on the output of a successful run succeeds again and
  writes the same two stores: every point and every record keeps its id and its
  \<open>legacy_id\<close>, and the \<open>meta\<close> entries are the same.
\<close>

theorem C3_migration_idempotent:
  assumes "migrate_main d = (Inr (), d1)"
  shows "\<exists>d2. migrate_main d1 = (Inr (), d2)
           \<and> points_file d2 = points_file d1 \<and> normals_file d2 = normals_file d1"
proof -
  from assms obtain ups nr where
    plan: "migrate_plan (points_file d) (normals_file d) = Inr (ups, nr)"
    and ne: "ups \<noteq> []"
    and d1: "points_file d1 = Parsed (PointsArray ups)" "normals_file d1 = Parsed nr"
    by (auto simp: migrate_main_def Let_def split: sum.splits prod.splits if_splits)
  from migrate_plan_again [OF plan] ne d1 show ?thesis
    by (simp add: migrate_main_def Let_def)
qed

lemma mul_2: "js_mul (Fin 2) (Fin 1000) = Fin 2000"
  unfolding js_mul.simps
  by (subst round_binary64_pos [where e = 10 and r = "2000"])
     (simp_all add: pow2_def round_half_even_def Let_def)

lemma toNewId_1: "toNewId (Fin 1) = Inr ''at-main-mi0001000''"
proof -
  have "js_mul (Fin 1) SCALE = Fin 1000" by (simp only: SCALE_def mul_1)
  then have "Math_round (js_mul (Fin 1) SCALE) = Fin 1000" by simp
  then have "toNewId (Fin 1) = Inr (''at-main-mi'' @ padStart 7 (CHR ''0'') (Number_toString (Fin 1000)))"
    by (rule toNewId_finite)
  then show ?thesis
    by (simp add: padStart_def String_int_def dec_digits.simps digit_char_def replicate_numeral)
qed

lemma toNewId_2: "toNewId (Fin 2) = Inr ''at-main-mi0002000''"
proof -
  have "js_mul (Fin 2) SCALE = Fin 2000" by (simp only: SCALE_def mul_2)
  then have "Math_round (js_mul (Fin 2) SCALE) = Fin 2000" by simp
  then have "toNewId (Fin 2) = Inr (''at-main-mi'' @ padStart 7 (CHR ''0'') (Number_toString (Fin 2000)))"
    by (rule toNewId_finite)
  then show ?thesis
    by (simp add: padStart_def String_int_def dec_digits.simps digit_char_def replicate_numeral)
qed

lemma mileFromPoint_examples:
  "mileFromPoint pointA = Inr (Fin 1)" "mileFromPoint pointB = Inr (Fin 1)"
  "mileFromPoint pointC = Inr (Fin 2)"
  by (simp_all add: mileFromPoint_def pointA_def pointB_def pointC_def)



lemma example_fields:
  "point_id pointA = ''GA_0001_0''" "legacy_id pointA = None"
  "point_id pointB = ''GA_0001_1''" "legacy_id pointB = None"
  "point_id pointC = ''GA_0002_0''" "legacy_id pointC = None"
  "rec_id recA = IdString ''GA_0001_0''" "rec_legacy_id recA = None"
  by (simp_all add: pointA_def pointB_def pointC_def recA_def)

lemmas example_eval =
  migrate_main_def migrate_plan_def store_def Let_def mileFromPoint_examples toNewId_1 toNewId_2
  example_fields ensureUniqueIds_def getNormalsArray_def

lemma run_ok: "fst (migrate_main (store [pointA, pointC] [recA])) = Inr ()"
  by (simp add: example_eval)

text \<open>C3 at a store of two points and one record: the second run changes neither file.\<close>

theorem C3_witness:
  "\<exists>d2. migrate_main (snd (migrate_main (store [pointA, pointC] [recA]))) = (Inr (), d2)
     \<and> points_file d2 = points_file (snd (migrate_main (store [pointA, pointC] [recA])))
     \<and> normals_file d2 = normals_file (snd (migrate_main (store [pointA, pointC] [recA])))"
proof -
  have "fst (migrate_main (store [pointA, pointC] [recA])) = Inr ()"
    by (simp add: example_eval)
  then have "migrate_main (store [pointA, pointC] [recA])
               = (Inr (), snd (migrate_main (store [pointA, pointC] [recA])))"
    by (simp add: prod_eq_iff)
  then show ?thesis by (rule C3_migration_idempotent)
qed



section \<open>Properties of the point index\<close>

lemma js_le_refl: "x \<noteq> NaN \<Longrightarrow> js_le x x"
  by (simp add: js_le_def js_eq_def)

lemma js_le_trans: "js_le x y \<Longrightarrow> js_le y z \<Longrightarrow> js_le x z"
  by (cases x; cases y; cases z) (auto simp: js_le_def js_eq_def)

lemma js_le_total: "x \<noteq> NaN \<Longrightarrow> y \<noteq> NaN \<Longrightarrow> js_le x y \<or> js_le y x"
  by (cases x; cases y) (auto simp: js_le_def js_eq_def)

lemma mile_distance_Fin:
  "mile_distance p (Fin q) = Math_abs (round_binary64 (tp_mile_est p - q))"
  by (simp add: mile_distance_def js_sub_def)

lemma mile_distance_not_NaN: "mile_distance p (Fin q) \<noteq> NaN"
  by (simp add: mile_distance_Fin Math_abs_round_binary64)

lemma mile_distance_mono:
  "\<bar>tp_mile_est p - q\<bar> \<le> \<bar>tp_mile_est x - q\<bar> \<Longrightarrow>
   js_le (mile_distance p (Fin q)) (mile_distance x (Fin q))"
  by (simp add: mile_distance_Fin abs_round_mono)

lemma sorted_miles_nth:
  "sorted (map tp_mile_est arr) \<Longrightarrow> i \<le> j \<Longrightarrow> j < length arr \<Longrightarrow>
   tp_mile_est (arr ! i) \<le> tp_mile_est (arr ! j)"
  using sorted_nth_mono [of "map tp_mile_est arr" i j] by simp

lemma search_loop_spec:
  assumes "sorted (map tp_mile_est arr)"
    and "0 \<le> l" and "h < int (length arr)" and "l \<le> h + 1"
    and "\<forall>i < nat l. tp_mile_est (arr ! i) < q"
    and "\<forall>i. nat (h + 1) \<le> i \<and> i < length arr \<longrightarrow> q < tp_mile_est (arr ! i)"
  shows "case search_loop arr (Fin q) l h of
           Inl p \<Rightarrow> p \<in> set arr \<and> tp_mile_est p = q
         | Inr (l', h') \<Rightarrow> h' = l' - 1 \<and> 0 \<le> l' \<and> l' \<le> int (length arr)
              \<and> (\<forall>i < nat l'. tp_mile_est (arr ! i) < q)
              \<and> (\<forall>i. nat l' \<le> i \<and> i < length arr \<longrightarrow> q < tp_mile_est (arr ! i))"
  using assms
proof (induction arr "Fin q" l h rule: search_loop.induct)
  case (1 arr l h)
  show ?case
  proof (cases "l \<le> h")
    case False
    with 1(4-) show ?thesis
      by (subst search_loop.simps) auto
  next
    case True
    define mid where "mid = (l + h) div 2"
    from True have mid: "l \<le> mid" "mid \<le> h" by (auto simp: mid_def)
    with 1(4,5) have inr: "0 \<le> mid" "nat mid < length arr" by auto
    define m where "m = tp_mile_est (arr ! nat mid)"
    consider (eq) "m = q" | (lt) "m < q" | (gt) "q < m" by linarith
    then show ?thesis
    proof cases
      case eq
      with True inr show ?thesis
        by (subst search_loop.simps) (simp add: Let_def js_eq_def mid_def [symmetric] m_def [symmetric])
    next
      case lt
      have below: "\<forall>i < nat (mid + 1). tp_mile_est (arr ! i) < q"
      proof (intro allI impI)
        fix i assume "i < nat (mid + 1)"
        with inr have "i \<le> nat mid" by simp
        from sorted_miles_nth [OF 1(3) this inr(2)] lt show "tp_mile_est (arr ! i) < q"
          by (simp add: m_def)
      qed
      have ne: "\<not> js_eq (Fin (tp_mile_est (arr ! nat mid))) (Fin q)"
        and jl: "js_lt (Fin (tp_mile_est (arr ! nat mid))) (Fin q)"
        using lt by (simp_all add: js_eq_def m_def)
      from inr(1) have p1: "0 \<le> mid + 1" by simp
      from mid(2) have p2: "mid + 1 \<le> h + 1" by simp
      note IH = 1(1) [OF True mid_def refl ne jl 1(3) p1 1(5) p2 below 1(8)]
      from IH True lt show ?thesis
        by (subst search_loop.simps)
           (simp add: Let_def js_eq_def mid_def [symmetric] m_def [symmetric])
    next
      case gt
      have above: "\<forall>i. nat (mid - 1 + 1) \<le> i \<and> i < length arr \<longrightarrow> q < tp_mile_est (arr ! i)"
      proof (intro allI impI)
        fix i assume "nat (mid - 1 + 1) \<le> i \<and> i < length arr"
        then have "nat mid \<le> i" "i < length arr" by simp_all
        from sorted_miles_nth [OF 1(3) this] gt show "q < tp_mile_est (arr ! i)"
          by (simp add: m_def)
      qed
      have ne: "\<not> js_eq (Fin (tp_mile_est (arr ! nat mid))) (Fin q)"
        and jl: "\<not> js_lt (Fin (tp_mile_est (arr ! nat mid))) (Fin q)"
        using gt by (simp_all add: js_eq_def m_def)
      from inr(2) have p1: "mid - 1 < int (length arr)" by simp
      from mid(1) have p2: "l \<le> mid - 1 + 1" by simp
      note IH = 1(2) [OF True mid_def refl ne jl 1(3) 1(4) p1 p2 1(7) above]
      from IH True gt show ?thesis
        by (subst search_loop.simps)
           (simp add: Let_def js_eq_def mid_def [symmetric] m_def [symmetric])
    qed
  qed
qed

lemma filter_prefix:
  assumes "k \<le> length xs" and "\<forall>i < k. P (xs ! i)"
    and "\<forall>i. k \<le> i \<and> i < length xs \<longrightarrow> \<not> P (xs ! i)"
  shows "filter P xs = take k xs"
proof -
  have 1: "filter P (take k xs) = take k xs"
    using assms(1,2) by (auto simp: filter_id_conv in_set_conv_nth)
  have 2: "filter P (drop k xs) = []"
    using assms(3) by (auto simp: filter_empty_conv in_set_conv_nth)
  have "filter P xs = filter P (take k xs @ drop k xs)" by simp
  also have "\<dots> = take k xs" unfolding filter_append 1 2 by simp
  finally show ?thesis .
qed

lemma filter_suffix:
  assumes "k \<le> length xs" and "\<forall>i < k. \<not> P (xs ! i)"
    and "\<forall>i. k \<le> i \<and> i < length xs \<longrightarrow> P (xs ! i)"
  shows "filter P xs = drop k xs"
proof -
  have 1: "filter P (take k xs) = []"
    using assms(1,2) by (auto simp: filter_empty_conv in_set_conv_nth)
  have 2: "filter P (drop k xs) = drop k xs"
    using assms(3) by (auto simp: filter_id_conv in_set_conv_nth)
  have "filter P xs = filter P (take k xs @ drop k xs)" by simp
  also have "\<dots> = drop k xs" unfolding filter_append 1 2 by simp
  finally show ?thesis .
qed

lemma getNearestPointByMile_None:
  "getNearestPointByMile arr t = None \<longleftrightarrow> arr = [] \<or> \<not> isFinite t"
  by (auto simp: getNearestPointByMile_def Let_def split: sum.splits prod.splits)

lemma nearest_after_search:
  fixes arr :: "trail_point list" and q :: rat and k :: nat
  assumes srt: "sorted (map tp_mile_est arr)" and ne: "arr \<noteq> []"
    and k: "k \<le> length arr"
    and lo: "\<forall>i < k. tp_mile_est (arr ! i) < q"
    and hi: "\<forall>i. k \<le> i \<and> i < length arr \<longrightarrow> q < tp_mile_est (arr ! i)"
  defines "a \<equiv> arr ! nat (max 0 (min (int (length arr) - 1) (int k - 1)))"
    and "b \<equiv> arr ! nat (max 0 (min (int (length arr) - 1) (int k)))"
  defines "r \<equiv> (if js_le (mile_distance a (Fin q)) (mile_distance b (Fin q)) then a else b)"
  shows "r \<in> set arr"
    and "\<forall>x \<in> set arr. js_le (mile_distance r (Fin q)) (mile_distance x (Fin q))"
    and "r = (let below = filter (\<lambda>x. tp_mile_est x < q) arr;
                  above = filter (\<lambda>x. q < tp_mile_est x) arr
              in if below = [] then hd above else if above = [] then last below
                 else if js_le (mile_distance (last below) (Fin q)) (mile_distance (hd above) (Fin q))
                      then last below else hd above)"
proof -
  let ?n = "length arr"
  let ?d = "\<lambda>x. mile_distance x (Fin q)"
  define ia where "ia = nat (max 0 (min (int ?n - 1) (int k - 1)))"
  define ib where "ib = nat (max 0 (min (int ?n - 1) (int k)))"
  from ne have n: "0 < ?n" by simp
  have a: "a = arr ! ia" and b: "b = arr ! ib" by (simp_all add: a_def b_def ia_def ib_def)
  have ia: "ia < ?n" unfolding ia_def using n k by arith
  have ib: "ib < ?n" unfolding ib_def using n k by arith
  have ia_k: "ia = k - 1" if "0 < k" unfolding ia_def using that k by arith
  have ib_k: "ib = k" if "k < ?n" unfolding ib_def using that by arith
  have ia_0: "ia = 0" if "k = 0" unfolding ia_def using that by arith
  have ib_n: "ib = ?n - 1" if "k = ?n" unfolding ib_def using that n by arith
  from ia ib show "r \<in> set arr" by (simp add: r_def a b)
  have total: "js_le (?d a) (?d b) \<or> js_le (?d b) (?d a)"
    by (rule js_le_total) (rule mile_distance_not_NaN)+
  have low: "js_le (?d a) (?d (arr ! i))" if "i < k" for i
  proof -
    from that have "ia = k - 1" by (simp add: ia_k)
    with that have "i \<le> ia" by simp
    from sorted_miles_nth [OF srt this ia] have "tp_mile_est (arr ! i) \<le> tp_mile_est a"
      by (simp add: a)
    moreover from lo that \<open>ia = k - 1\<close> have "tp_mile_est a < q" by (simp add: a)
    ultimately show ?thesis by (intro mile_distance_mono) simp
  qed
  have high: "js_le (?d b) (?d (arr ! i))" if "k \<le> i" "i < ?n" for i
  proof -
    from that have "ib = k" by (simp add: ib_k)
    from sorted_miles_nth [OF srt _ that(2), of ib] that \<open>ib = k\<close>
    have "tp_mile_est b \<le> tp_mile_est (arr ! i)" by (simp add: b)
    moreover from hi that \<open>ib = k\<close> have "q < tp_mile_est b" by (simp add: b)
    ultimately show ?thesis by (intro mile_distance_mono) simp
  qed
  show "\<forall>x \<in> set arr. js_le (?d r) (?d x)"
  proof
    fix x assume "x \<in> set arr"
    then obtain i where i: "i < ?n" "x = arr ! i" by (auto simp: in_set_conv_nth)
    show "js_le (?d r) (?d x)"
    proof (cases "i < k")
      case True
      from low [OF True] total show ?thesis
        by (auto simp: r_def i(2) intro: js_le_trans)
    next
      case False
      with i(1) have "js_le (?d b) (?d (arr ! i))" by (intro high) simp_all
      then show ?thesis
        by (auto simp: r_def i(2) intro: js_le_trans)
    qed
  qed
  have below: "filter (\<lambda>x. tp_mile_est x < q) arr = take k arr"
    using k lo hi by (intro filter_prefix) (auto simp: not_less intro: less_imp_le)
  have above: "filter (\<lambda>x. q < tp_mile_est x) arr = drop k arr"
    using k lo hi by (intro filter_suffix) (auto simp: not_less intro: less_imp_le)
  show "r = (let below = filter (\<lambda>x. tp_mile_est x < q) arr;
                  above = filter (\<lambda>x. q < tp_mile_est x) arr
              in if below = [] then hd above else if above = [] then last below
                 else if js_le (mile_distance (last below) (Fin q)) (mile_distance (hd above) (Fin q))
                      then last below else hd above)"
  proof -
    consider (none) "k = 0" | (all) "k = ?n" "0 < k" | (mid) "0 < k" "k < ?n" using k by linarith
    then show ?thesis
    proof cases
      case none
      then have "a = arr ! 0" "b = arr ! 0" using n by (simp_all add: a b ia_0 ib_k)
      with none ne show ?thesis
        by (simp add: below above r_def hd_conv_nth Let_def)
    next
      case all
      then have "a = arr ! (?n - 1)" "b = arr ! (?n - 1)" by (simp_all add: a b ia_k ib_n)
      with all ne show ?thesis
        by (simp add: below above r_def last_conv_nth Let_def)
    next
      case mid
      then have "a = arr ! (k - 1)" "b = arr ! k" by (simp_all add: a b ia_k ib_k)
      moreover have "last (take k arr) = arr ! (k - 1)"
      proof -
        from mid have "take k arr \<noteq> []" by auto
        then have "last (take k arr) = take k arr ! (length (take k arr) - 1)"
          by (rule last_conv_nth)
        also from mid have "\<dots> = arr ! (k - 1)" by simp
        finally show ?thesis .
      qed
      moreover from mid have "hd (drop k arr) = arr ! k" by (simp add: hd_drop_conv_nth)
      ultimately show ?thesis using mid ne
        by (simp add: below above r_def Let_def)
    qed
  qed
qed

text \<open>The mile asked for on a day of a trip is a finite number.\<close>

lemma round_binary64_not_NaN [simp]: "round_binary64 q \<noteq> NaN"
  by (simp add: round_binary64_def)

lemma js_mul_Fin_not_NaN: "x \<noteq> NaN \<Longrightarrow> c \<noteq> 0 \<Longrightarrow> js_mul (Fin c) x \<noteq> NaN"
  by (cases x) auto

lemma js_add_Fin_not_NaN: "x \<noteq> NaN \<Longrightarrow> js_add (Fin s) x \<noteq> NaN"
  by (cases x) auto

lemma clamp_finite:
  "t0 \<noteq> NaN \<Longrightarrow>
   isFinite (let t1 = (if js_lt t0 (Fin l) then Fin l else t0)
             in if js_lt (Fin h) t1 then Fin h else t1)"
  by (cases t0) auto

lemma target_mile_finite:
  assumes "isFinite (trailMinMiles st)" "isFinite (trailMaxMiles st)" "isFinite mpd"
  shows "isFinite (target_mile st dir mpd i)"
proof -
  from assms obtain l h m where
    v: "trailMinMiles st = Fin l" "trailMaxMiles st = Fin h" "mpd = Fin m"
    by (cases "trailMinMiles st"; cases "trailMaxMiles st"; cases mpd) auto
  define sg :: rat where "sg = (if dir = ''SOBO'' then - 1 else 1)"
  define s where "s = (if dir = ''SOBO'' then h else l)"
  define t0 where "t0 = js_add (Fin s) (js_mul (Fin sg) (js_mul (Fin m) (Fin (of_nat i))))"
  have "sg \<noteq> 0" by (simp add: sg_def)
  moreover have "js_mul (Fin m) (Fin (of_nat i)) \<noteq> NaN" by simp
  ultimately have "js_mul (Fin sg) (js_mul (Fin m) (Fin (of_nat i))) \<noteq> NaN"
    by (rule js_mul_Fin_not_NaN [rotated])
  then have "t0 \<noteq> NaN" unfolding t0_def by (rule js_add_Fin_not_NaN)
  from clamp_finite [OF this, of l h]
  have "isFinite (let t1 = (if js_lt t0 (Fin l) then Fin l else t0)
                  in if js_lt (Fin h) t1 then Fin h else t1)" .
  moreover have "target_mile st dir mpd i
      = (let t1 = (if js_lt t0 (Fin l) then Fin l else t0)
         in if js_lt (Fin h) t1 then Fin h else t1)"
    by (simp add: target_mile_def v t0_def s_def sg_def Let_def)
  ultimately show ?thesis by (simp only:)
qed

text \<open>
  C5, as the code has it. On a non-empty array sorted by mile and a finite target, the
  lookup returns a point of the array whose computed distance \<open>Math.abs(mile - target)\<close>
  is smallest; a point at exactly the target mile if there is one; and otherwise the
  closer of the last point below and the first point above the target, the lower one
  on a tie (or the first or last point when the target lies outside), the distances
  being compared as computed. It returns \<open>null\<close> exactly when the array is empty or the
  target is not a finite number; the target of a day of a trip is always finite, so
  there it returns \<open>null\<close> only when there is no point.
\<close>

theorem C5_nearest_point:
  assumes "arr \<noteq> []" and "sorted (map tp_mile_est arr)"
  shows "(\<exists>p. getNearestPointByMile arr (Fin q) = Some p \<and> p \<in> set arr
           \<and> (\<forall>x \<in> set arr. js_le (mile_distance p (Fin q)) (mile_distance x (Fin q)))
           \<and> ((\<exists>x \<in> set arr. tp_mile_est x = q) \<longrightarrow> tp_mile_est p = q)
           \<and> ((\<forall>x \<in> set arr. tp_mile_est x \<noteq> q) \<longrightarrow>
                p = (let below = filter (\<lambda>x. tp_mile_est x < q) arr;
                         above = filter (\<lambda>x. q < tp_mile_est x) arr
                     in if below = [] then hd above else if above = [] then last below
                        else if js_le (mile_distance (last below) (Fin q))
                                  (mile_distance (hd above) (Fin q))
                             then last below else hd above)))
         \<and> (getNearestPointByMile arr' t = None \<longleftrightarrow> arr' = [] \<or> \<not> isFinite t)
         \<and> (isFinite (trailMinMiles st) \<and> isFinite (trailMaxMiles st) \<and> isFinite mpd \<longrightarrow>
              isFinite (target_mile st dir mpd i)
              \<and> (getNearestPointByMile (allPointsSortedByMile st) (target_mile st dir mpd i) = None
                   \<longleftrightarrow> allPointsSortedByMile st = []))"
proof (intro conjI)
  let ?n = "int (length arr)"
  from assms(1) have n: "0 < ?n" by simp
  have spec: "case search_loop arr (Fin q) 0 (?n - 1) of
           Inl p \<Rightarrow> p \<in> set arr \<and> tp_mile_est p = q
         | Inr (l', h') \<Rightarrow> h' = l' - 1 \<and> 0 \<le> l' \<and> l' \<le> int (length arr)
              \<and> (\<forall>i < nat l'. tp_mile_est (arr ! i) < q)
              \<and> (\<forall>i. nat l' \<le> i \<and> i < length arr \<longrightarrow> q < tp_mile_est (arr ! i))"
    using assms(2) by (intro search_loop_spec) auto
  show "\<exists>p. getNearestPointByMile arr (Fin q) = Some p \<and> p \<in> set arr
           \<and> (\<forall>x \<in> set arr. js_le (mile_distance p (Fin q)) (mile_distance x (Fin q)))
           \<and> ((\<exists>x \<in> set arr. tp_mile_est x = q) \<longrightarrow> tp_mile_est p = q)
           \<and> ((\<forall>x \<in> set arr. tp_mile_est x \<noteq> q) \<longrightarrow>
                p = (let below = filter (\<lambda>x. tp_mile_est x < q) arr;
                         above = filter (\<lambda>x. q < tp_mile_est x) arr
                     in if below = [] then hd above else if above = [] then last below
                        else if js_le (mile_distance (last below) (Fin q))
                                  (mile_distance (hd above) (Fin q))
                             then last below else hd above))"
  proof (cases "search_loop arr (Fin q) 0 (?n - 1)")
    case (Inl p)
    with spec have p: "p \<in> set arr" "tp_mile_est p = q" by simp_all
    from Inl assms(1) have "getNearestPointByMile arr (Fin q) = Some p"
      by (simp add: getNearestPointByMile_def)
    moreover have "\<forall>x \<in> set arr. js_le (mile_distance p (Fin q)) (mile_distance x (Fin q))"
      using p(2) by (auto intro: mile_distance_mono)
    ultimately show ?thesis using p by blast
  next
    case (Inr lh)
    obtain l h where lh: "lh = (l, h)" by (cases lh)
    with spec Inr have h: "h = l - 1" and l: "0 \<le> l" "l \<le> ?n"
      and lo: "\<forall>i < nat l. tp_mile_est (arr ! i) < q"
      and hi: "\<forall>i. nat l \<le> i \<and> i < length arr \<longrightarrow> q < tp_mile_est (arr ! i)"
      by simp_all
    from l have k: "nat l \<le> length arr" "int (nat l) = l" by simp_all
    define r where "r = (if js_le (mile_distance (arr ! nat (max 0 (min (?n - 1) (int (nat l) - 1)))) (Fin q))
                                 (mile_distance (arr ! nat (max 0 (min (?n - 1) (int (nat l))))) (Fin q))
                         then arr ! nat (max 0 (min (?n - 1) (int (nat l) - 1)))
                         else arr ! nat (max 0 (min (?n - 1) (int (nat l)))))"
    note res = nearest_after_search [OF assms(2,1) k(1) lo hi, folded r_def]
    from Inr lh h assms(1) have "getNearestPointByMile arr (Fin q) = Some r"
      by (simp add: getNearestPointByMile_def Let_def r_def k(2))
    moreover have "\<not> (\<exists>x \<in> set arr. tp_mile_est x = q)"
    proof
      assume "\<exists>x \<in> set arr. tp_mile_est x = q"
      then obtain i where i: "i < length arr" "tp_mile_est (arr ! i) = q"
        by (auto simp: in_set_conv_nth)
      with lo hi show False by (cases "i < nat l") (auto simp: not_less)
    qed
    ultimately show ?thesis using res by blast
  qed
next
  show "getNearestPointByMile arr' t = None \<longleftrightarrow> arr' = [] \<or> \<not> isFinite t"
    by (rule getNearestPointByMile_None)
next
  show "isFinite (trailMinMiles st) \<and> isFinite (trailMaxMiles st) \<and> isFinite mpd \<longrightarrow>
          isFinite (target_mile st dir mpd i)
          \<and> (getNearestPointByMile (allPointsSortedByMile st) (target_mile st dir mpd i) = None
               \<longleftrightarrow> allPointsSortedByMile st = [])"
    by (simp add: target_mile_finite getNearestPointByMile_None)
qed

lemma tp_miles [simp]: "tp_mile_est tp0 = 0" "tp_mile_est tp10 = 10" "tp_mile_est tp20 = 20"
  by (simp_all add: tp0_def tp10_def tp20_def)

lemma tp_distinct: "tp0 \<noteq> tp10" "tp10 \<noteq> tp20" "tp0 \<noteq> tp20"
  by (simp_all add: tp0_def tp10_def tp20_def)

lemma round_mag_six: "round_mag (6 + 1 / 2 ^ 53) = 6"
  by (subst round_mag_eq [where e = 2])
     (simp_all add: pow2_def round_half_even_def Let_def)

lemma distance_below_1: "mile_distance tp_below_1 (Fin 7) = Fin 6"
proof -
  have "\<bar>tp_mile_est tp_below_1 - 7\<bar> = 6 + 1 / 2 ^ 53"
    by (simp add: tp_below_1_def)
  then show ?thesis
    by (simp only: mile_distance_Fin Math_abs_round_binary64 round_mag_six) simp
qed

lemma distance_13: "mile_distance tp13 (Fin 7) = Fin 6"
  by (simp add: mile_distance_Fin tp13_def round_binary64_numeral)

text \<open>
  C5 as stated fails on the points of miles 0, \<open>0.9999999999999999\<close> and 13 for a hike of
  7 miles a day: the mile of the second day is 7, the point at mile 13 is nearer to it
  (6 miles against \<open>6 + 2^-53\<close>), and the lookup returns the point below 1, because both
  computed distances are 6 and the tie goes to the lower point.
\<close>

theorem C5_counterexample:
  "sorted (map tp_mile_est [tp0, tp_below_1, tp13])
   \<and> target_mile rounding_app ''NOBO'' (Fin 7) 1 = Fin 7
   \<and> getNearestPointByMile (allPointsSortedByMile rounding_app) (Fin 7) = Some tp_below_1
   \<and> \<bar>tp_mile_est tp13 - 7\<bar> < \<bar>tp_mile_est tp_below_1 - 7\<bar>"
proof -
  have m: "tp_mile_est tp0 = 0" "tp_mile_est tp_below_1 = 1 - 1 / 2 ^ 53" "tp_mile_est tp13 = 13"
    by (simp_all add: tp0_def tp_below_1_def tp13_def)
  have t: "target_mile rounding_app ''NOBO'' (Fin 7) 1 = Fin 7"
    by (simp add: target_mile_def rounding_app_def Let_def round_binary64_numeral)
  have s: "search_loop [tp0, tp_below_1, tp13] (Fin 7) 0 2 = Inr (2, 1)"
    by (simp add: search_loop.simps [of _ _ 0 2] search_loop.simps [of _ _ 2 2]
        search_loop.simps [of _ _ 2 1] m js_eq_def Let_def)
  have n: "getNearestPointByMile (allPointsSortedByMile rounding_app) (Fin 7) = Some tp_below_1"
    by (simp add: getNearestPointByMile_def rounding_app_def s distance_below_1 distance_13
        js_le_def js_eq_def Let_def)
  from m t n show ?thesis by simp
qed

text \<open>
  C5 at the points of miles 0, 10 and 20: mile 14 is nearest to 10, mile 10 is matched
  exactly, mile 15 is a tie and goes to 10.
\<close>

theorem C5_witness:
  "getNearestPointByMile [tp0, tp10, tp20] (Fin 14) = Some tp10
   \<and> getNearestPointByMile [tp0, tp10, tp20] (Fin 10) = Some tp10
   \<and> getNearestPointByMile [tp0, tp10, tp20] (Fin 15) = Some tp10
   \<and> getNearestPointByMile [] (Fin 15) = None
   \<and> isFinite (target_mile example_app ''NOBO'' (Fin 8) 1)
   \<and> getNearestPointByMile (allPointsSortedByMile example_app)
         (target_mile example_app ''NOBO'' (Fin 8) 1) \<noteq> None"
proof -
  have ne: "[tp0, tp10, tp20] \<noteq> []" by simp
  have srt: "sorted (map tp_mile_est [tp0, tp10, tp20])" by simp
  have d: "mile_distance tp10 (Fin 14) = Fin 4" "mile_distance tp20 (Fin 14) = Fin 6"
    "mile_distance tp10 (Fin 15) = Fin 5" "mile_distance tp20 (Fin 15) = Fin 5"
    by (simp_all add: mile_distance_Fin round_binary64_numeral)
  from C5_nearest_point [OF ne srt, where q = 14 and arr' = "[]" and t = "Fin 15"
      and st = example_app and mpd = "Fin 8" and dir = "''NOBO''" and i = 1]
  have 1: "getNearestPointByMile [tp0, tp10, tp20] (Fin 14) = Some tp10"
    and 4: "getNearestPointByMile [] (Fin 15) = None"
    by (auto simp: d js_le_def js_eq_def)
  from C5_nearest_point [OF ne srt, where q = 10 and arr' = "[]" and t = "Fin 15"
      and st = example_app and mpd = "Fin 8" and dir = "''NOBO''" and i = 1]
  have 2: "getNearestPointByMile [tp0, tp10, tp20] (Fin 10) = Some tp10"
    by auto
  from C5_nearest_point [OF ne srt, where q = 15 and arr' = "[]" and t = "Fin 15"
      and st = example_app and mpd = "Fin 8" and dir = "''NOBO''" and i = 1]
  have 3: "getNearestPointByMile [tp0, tp10, tp20] (Fin 15) = Some tp10"
    by (auto simp: d js_le_def js_eq_def)
  from C5_nearest_point [OF ne srt, where st = example_app and mpd = "Fin 8" and dir = "''NOBO''"
      and i = 1]
  have 5: "isFinite (target_mile example_app ''NOBO'' (Fin 8) 1)"
    and 6: "getNearestPointByMile (allPointsSortedByMile example_app)
         (target_mile example_app ''NOBO'' (Fin 8) 1) \<noteq> None"
    by (simp_all add: example_app_def)
  from 1 2 3 4 5 6 show ?thesis by simp
qed

section \<open>Properties of the extremes evaluator\<close>

lemma duration_extremes_Suc:
  "duration_extremes st dir sd mpd (Suc n)
     = track (duration_extremes st dir sd mpd n) (day_record st dir sd mpd n)"
  by (simp add: duration_extremes_def)

lemma duration_extremes_0: "duration_extremes st dir sd mpd 0 = (None, None)"
  by (simp add: duration_extremes_def)

lemma hottest_spec:
  "(fst (duration_extremes st dir sd mpd n) = None
      \<longleftrightarrow> (\<forall>i < n. day_record st dir sd mpd i = None))
   \<and> (\<forall>x. fst (duration_extremes st dir sd mpd n) = Some x \<longrightarrow>
         (\<exists>i < n. day_record st dir sd mpd i = Some x
            \<and> (\<forall>j < i. \<forall>y. day_record st dir sd mpd j = Some y \<longrightarrow> avgHigh y < avgHigh x)
            \<and> (\<forall>j < n. \<forall>y. day_record st dir sd mpd j = Some y \<longrightarrow> avgHigh y \<le> avgHigh x)))"
proof (induction n)
  case 0
  show ?case by (simp add: duration_extremes_0)
next
  case (Suc n)
  let ?rec = "day_record st dir sd mpd"
  let ?h = "fst (duration_extremes st dir sd mpd n)"
  note IH = Suc
  show ?case
  proof (cases "?rec n")
    case None
    then have same: "fst (duration_extremes st dir sd mpd (Suc n)) = ?h"
      by (simp add: duration_extremes_Suc track_def)
    show ?thesis
      unfolding same using IH None
      by (auto simp: less_Suc_eq)
  next
    case (Some rc)
    show ?thesis
    proof (cases ?h)
      case None
      with Some have new: "fst (duration_extremes st dir sd mpd (Suc n)) = Some rc"
        by (simp add: duration_extremes_Suc track_def)
      from IH None have all: "\<forall>i < n. ?rec i = None" by simp
      show ?thesis
        unfolding new using Some all
        by (auto simp: less_Suc_eq intro!: exI [of _ n])
    next
      case h: (Some x)
      from IH h obtain i where i: "i < n" "?rec i = Some x"
        "\<forall>j < i. \<forall>y. ?rec j = Some y \<longrightarrow> avgHigh y < avgHigh x"
        "\<forall>j < n. \<forall>y. ?rec j = Some y \<longrightarrow> avgHigh y \<le> avgHigh x"
        by blast
      show ?thesis
      proof (cases "avgHigh x < avgHigh rc")
        case True
        with Some h have new: "fst (duration_extremes st dir sd mpd (Suc n)) = Some rc"
          by (simp add: duration_extremes_Suc track_def)
        have "\<forall>j < n. \<forall>y. ?rec j = Some y \<longrightarrow> avgHigh y < avgHigh rc"
          using i(4) True by fastforce
        then show ?thesis
          unfolding new using Some
          by (auto simp: less_Suc_eq intro!: exI [of _ n]) (fastforce+)?
      next
        case False
        with Some h have same: "fst (duration_extremes st dir sd mpd (Suc n)) = Some x"
          by (simp add: duration_extremes_Suc track_def)
        have "\<forall>j < Suc n. \<forall>y. ?rec j = Some y \<longrightarrow> avgHigh y \<le> avgHigh x"
          using i(4) Some False by (auto simp: less_Suc_eq)
        with i(1,2,3) show ?thesis
          unfolding same by (auto simp: less_Suc_eq intro!: exI [of _ i])
      qed
    qed
  qed
qed

lemma coldest_spec:
  "(snd (duration_extremes st dir sd mpd n) = None
      \<longleftrightarrow> (\<forall>i < n. day_record st dir sd mpd i = None))
   \<and> (\<forall>x. snd (duration_extremes st dir sd mpd n) = Some x \<longrightarrow>
         (\<exists>i < n. day_record st dir sd mpd i = Some x
            \<and> (\<forall>j < i. \<forall>y. day_record st dir sd mpd j = Some y \<longrightarrow> avgLow x < avgLow y)
            \<and> (\<forall>j < n. \<forall>y. day_record st dir sd mpd j = Some y \<longrightarrow> avgLow x \<le> avgLow y)))"
proof (induction n)
  case 0
  show ?case by (simp add: duration_extremes_0)
next
  case (Suc n)
  let ?rec = "day_record st dir sd mpd"
  let ?h = "snd (duration_extremes st dir sd mpd n)"
  note IH = Suc
  show ?case
  proof (cases "?rec n")
    case None
    then have same: "snd (duration_extremes st dir sd mpd (Suc n)) = ?h"
      by (simp add: duration_extremes_Suc track_def)
    show ?thesis
      unfolding same using IH None
      by (auto simp: less_Suc_eq)
  next
    case (Some rc)
    show ?thesis
    proof (cases ?h)
      case None
      with Some have new: "snd (duration_extremes st dir sd mpd (Suc n)) = Some rc"
        by (simp add: duration_extremes_Suc track_def)
      from IH None have all: "\<forall>i < n. ?rec i = None" by simp
      show ?thesis
        unfolding new using Some all
        by (auto simp: less_Suc_eq intro!: exI [of _ n])
    next
      case h: (Some x)
      from IH h obtain i where i: "i < n" "?rec i = Some x"
        "\<forall>j < i. \<forall>y. ?rec j = Some y \<longrightarrow> avgLow x < avgLow y"
        "\<forall>j < n. \<forall>y. ?rec j = Some y \<longrightarrow> avgLow x \<le> avgLow y"
        by blast
      show ?thesis
      proof (cases "avgLow rc < avgLow x")
        case True
        with Some h have new: "snd (duration_extremes st dir sd mpd (Suc n)) = Some rc"
          by (simp add: duration_extremes_Suc track_def)
        have "\<forall>j < n. \<forall>y. ?rec j = Some y \<longrightarrow> avgLow rc < avgLow y"
          using i(4) True by fastforce
        then show ?thesis
          unfolding new using Some
          by (auto simp: less_Suc_eq intro!: exI [of _ n]) (fastforce+)?
      next
        case False
        with Some h have same: "snd (duration_extremes st dir sd mpd (Suc n)) = Some x"
          by (simp add: duration_extremes_Suc track_def)
        have "\<forall>j < Suc n. \<forall>y. ?rec j = Some y \<longrightarrow> avgLow x \<le> avgLow y"
          using i(4) Some False by (auto simp: less_Suc_eq)
        with i(1,2,3) show ?thesis
          unfolding same by (auto simp: less_Suc_eq intro!: exI [of _ i])
      qed
    qed
  qed
qed

lemma day_record_Some:
  "day_record st dir sd mpd i = Some r \<longleftrightarrow>
     (\<exists>p his los.
        getNearestPointByMile (allPointsSortedByMile st) (target_mile st dir mpd i) = Some p
        \<and> map_of (normalsByPointId st) (tp_id p) = Some (his, los)
        \<and> slot his (dayIndexInNonLeapYearFromMonthDay (month_day (addDays sd i))) = Some (avgHigh r)
        \<and> slot los (dayIndexInNonLeapYearFromMonthDay (month_day (addDays sd i))) = Some (avgLow r)
        \<and> r = \<lparr>dr_date = addDays sd i, dr_targetMile = target_mile st dir mpd i, dr_point = p,
                 avgHigh = avgHigh r, avgLow = avgLow r\<rparr>)"
  by (auto simp: day_record_def Let_def split: option.splits prod.splits)

text \<open>
  C8. Once the normals and the points are loaded, the evaluator shows two tables for
  the hottest and the coldest day of the trip: the hottest is the first of the days with
  data whose \<open>hi\<close> value is the largest, the coldest the first of those whose \<open>lo\<close> value is
  the smallest. A day has data exactly when its nearest point has normals with a number
  in both slots of that day; every other day is skipped. When no day of the trip has
  data it shows the "unable to compute" block, and before the data are loaded one of
  its two status messages; it throws in no case.
\<close>

theorem C8_extremes:
  "(normalsByPointId st \<noteq> [] \<and> isFinite (trailMinMiles st) \<and> isFinite (trailMaxMiles st)
      \<and> allPointsSortedByMile st \<noteq> [] \<longrightarrow>
      ((\<forall>i < n. day_record st dir sd mpd i = None) \<longrightarrow>
          computeAndRenderDurationExtremes st dir sd mpd n = Shown UnableToCompute)
      \<and> ((\<exists>i < n. day_record st dir sd mpd i \<noteq> None) \<longrightarrow>
          (\<exists>h c ih ic.
             computeAndRenderDurationExtremes st dir sd mpd n = Shown (Tables h c)
             \<and> ih < n \<and> day_record st dir sd mpd ih = Some h
             \<and> (\<forall>j < n. \<forall>y. day_record st dir sd mpd j = Some y \<longrightarrow> avgHigh y \<le> avgHigh h)
             \<and> (\<forall>j < ih. \<forall>y. day_record st dir sd mpd j = Some y \<longrightarrow> avgHigh y < avgHigh h)
             \<and> ic < n \<and> day_record st dir sd mpd ic = Some c
             \<and> (\<forall>j < n. \<forall>y. day_record st dir sd mpd j = Some y \<longrightarrow> avgLow c \<le> avgLow y)
             \<and> (\<forall>j < ic. \<forall>y. day_record st dir sd mpd j = Some y \<longrightarrow> avgLow c < avgLow y))))
   \<and> (day_record st dir sd mpd k = Some r \<longleftrightarrow>
        (\<exists>p his los.
           getNearestPointByMile (allPointsSortedByMile st) (target_mile st dir mpd k) = Some p
           \<and> map_of (normalsByPointId st) (tp_id p) = Some (his, los)
           \<and> slot his (dayIndexInNonLeapYearFromMonthDay (month_day (addDays sd k))) = Some (avgHigh r)
           \<and> slot los (dayIndexInNonLeapYearFromMonthDay (month_day (addDays sd k))) = Some (avgLow r)
           \<and> r = \<lparr>dr_date = addDays sd k, dr_targetMile = target_mile st dir mpd k, dr_point = p,
                    avgHigh = avgHigh r, avgLow = avgLow r\<rparr>))
   \<and> (normalsByPointId st = [] \<longrightarrow>
        computeAndRenderDurationExtremes st dir sd mpd n = NormalsNotLoaded)
   \<and> (normalsByPointId st \<noteq> []
        \<and> (\<not> isFinite (trailMinMiles st) \<or> \<not> isFinite (trailMaxMiles st)
             \<or> allPointsSortedByMile st = []) \<longrightarrow>
        computeAndRenderDurationExtremes st dir sd mpd n = PointsStillLoading)"
proof (intro conjI impI)
  assume g: "normalsByPointId st \<noteq> [] \<and> isFinite (trailMinMiles st)
      \<and> isFinite (trailMaxMiles st) \<and> allPointsSortedByMile st \<noteq> []"
  assume "\<forall>i < n. day_record st dir sd mpd i = None"
  with hottest_spec [of st dir sd mpd n]
  have "fst (duration_extremes st dir sd mpd n) = None" by blast
  with g show "computeAndRenderDurationExtremes st dir sd mpd n = Shown UnableToCompute"
    by (simp add: computeAndRenderDurationExtremes_def renderDurExtremesBlocks_def split_beta)
next
  assume g: "normalsByPointId st \<noteq> [] \<and> isFinite (trailMinMiles st)
      \<and> isFinite (trailMaxMiles st) \<and> allPointsSortedByMile st \<noteq> []"
  assume some: "\<exists>i < n. day_record st dir sd mpd i \<noteq> None"
  note hs = hottest_spec [of st dir sd mpd n] and cs = coldest_spec [of st dir sd mpd n]
  from some hs obtain h where h: "fst (duration_extremes st dir sd mpd n) = Some h"
    by (cases "fst (duration_extremes st dir sd mpd n)") auto
  from some cs obtain c where c: "snd (duration_extremes st dir sd mpd n) = Some c"
    by (cases "snd (duration_extremes st dir sd mpd n)") auto
  from hs h obtain ih where ih: "ih < n" "day_record st dir sd mpd ih = Some h"
    "\<forall>j < ih. \<forall>y. day_record st dir sd mpd j = Some y \<longrightarrow> avgHigh y < avgHigh h"
    "\<forall>j < n. \<forall>y. day_record st dir sd mpd j = Some y \<longrightarrow> avgHigh y \<le> avgHigh h"
    by blast
  from cs c obtain ic where ic: "ic < n" "day_record st dir sd mpd ic = Some c"
    "\<forall>j < ic. \<forall>y. day_record st dir sd mpd j = Some y \<longrightarrow> avgLow c < avgLow y"
    "\<forall>j < n. \<forall>y. day_record st dir sd mpd j = Some y \<longrightarrow> avgLow c \<le> avgLow y"
    by blast
  from g h c have "computeAndRenderDurationExtremes st dir sd mpd n = Shown (Tables h c)"
    by (simp add: computeAndRenderDurationExtremes_def renderDurExtremesBlocks_def split_beta)
  with ih ic show "\<exists>h c ih ic.
             computeAndRenderDurationExtremes st dir sd mpd n = Shown (Tables h c)
             \<and> ih < n \<and> day_record st dir sd mpd ih = Some h
             \<and> (\<forall>j < n. \<forall>y. day_record st dir sd mpd j = Some y \<longrightarrow> avgHigh y \<le> avgHigh h)
             \<and> (\<forall>j < ih. \<forall>y. day_record st dir sd mpd j = Some y \<longrightarrow> avgHigh y < avgHigh h)
             \<and> ic < n \<and> day_record st dir sd mpd ic = Some c
             \<and> (\<forall>j < n. \<forall>y. day_record st dir sd mpd j = Some y \<longrightarrow> avgLow c \<le> avgLow y)
             \<and> (\<forall>j < ic. \<forall>y. day_record st dir sd mpd j = Some y \<longrightarrow> avgLow c < avgLow y)"
    by blast
next
  show "day_record st dir sd mpd k = Some r \<longleftrightarrow>
        (\<exists>p his los.
           getNearestPointByMile (allPointsSortedByMile st) (target_mile st dir mpd k) = Some p
           \<and> map_of (normalsByPointId st) (tp_id p) = Some (his, los)
           \<and> slot his (dayIndexInNonLeapYearFromMonthDay (month_day (addDays sd k))) = Some (avgHigh r)
           \<and> slot los (dayIndexInNonLeapYearFromMonthDay (month_day (addDays sd k))) = Some (avgLow r)
           \<and> r = \<lparr>dr_date = addDays sd k, dr_targetMile = target_mile st dir mpd k, dr_point = p,
                    avgHigh = avgHigh r, avgLow = avgLow r\<rparr>)"
    by (rule day_record_Some)
next
  assume "normalsByPointId st = []"
  then show "computeAndRenderDurationExtremes st dir sd mpd n = NormalsNotLoaded"
    by (simp add: computeAndRenderDurationExtremes_def)
next
  assume "normalsByPointId st \<noteq> []
        \<and> (\<not> isFinite (trailMinMiles st) \<or> \<not> isFinite (trailMaxMiles st)
             \<or> allPointsSortedByMile st = [])"
  then show "computeAndRenderDurationExtremes st dir sd mpd n = PointsStillLoading"
    by (auto simp: computeAndRenderDurationExtremes_def)
qed

lemma addDays_simps:
  "addDays dt 0 = dt" "addDays dt (Suc n) = next_day (addDays dt n)"
  by (simp_all add: addDays_def)

lemma round_binary64_zero [simp]: "round_binary64 0 = Fin 0"
  by (simp add: round_binary64_def)

lemma nearest_tp10: "getNearestPointByMile [tp10] (Fin 10) = Some tp10"
  by (simp add: getNearestPointByMile_def search_loop.simps [of _ _ 0 0] js_eq_def)

lemma example_targets:
  "target_mile example_app ''NOBO'' (Fin 8) 0 = Fin 10"
  "target_mile example_app ''NOBO'' (Fin 8) 1 = Fin 10"
  "target_mile example_app ''NOBO'' (Fin 8) 2 = Fin 10"
  by (simp_all add: target_mile_def example_app_def Let_def round_binary64_numeral)

lemma example_days:
  "day_record example_app ''NOBO'' jan1 (Fin 8) 0
     = Some \<lparr>dr_date = \<lparr>year = 2027, month = 1, day = 1\<rparr>, dr_targetMile = Fin 10,
             dr_point = tp10, avgHigh = 50, avgLow = 30\<rparr>"
  "day_record example_app ''NOBO'' jan1 (Fin 8) (Suc 0)
     = Some \<lparr>dr_date = \<lparr>year = 2027, month = 1, day = 2\<rparr>, dr_targetMile = Fin 10,
             dr_point = tp10, avgHigh = 70, avgLow = 20\<rparr>"
  "day_record example_app ''NOBO'' jan1 (Fin 8) (Suc (Suc 0)) = None"
proof -
  have n: "allPointsSortedByMile example_app = [tp10]"
    "normalsByPointId example_app
       = [(''at-main-mi0010000'', [Some 50, Some 70, None], [Some 30, Some 20, Some 10])]"
    by (simp_all add: example_app_def)
  have i: "tp_id tp10 = ''at-main-mi0010000''" by (simp add: tp10_def)
  have d: "addDays jan1 0 = \<lparr>year = 2027, month = 1, day = 1\<rparr>"
    "addDays jan1 (Suc 0) = \<lparr>year = 2027, month = 1, day = 2\<rparr>"
    "addDays jan1 (Suc (Suc 0)) = \<lparr>year = 2027, month = 1, day = 3\<rparr>"
    by (simp_all add: addDays_simps jan1_def next_day_def days_in_month_def)
  have t: "target_mile example_app ''NOBO'' (Fin 8) (Suc 0) = Fin 10"
    "target_mile example_app ''NOBO'' (Fin 8) (Suc (Suc 0)) = Fin 10"
    using example_targets(2,3) by (simp_all add: numeral_2_eq_2)
  show "day_record example_app ''NOBO'' jan1 (Fin 8) 0
     = Some \<lparr>dr_date = \<lparr>year = 2027, month = 1, day = 1\<rparr>, dr_targetMile = Fin 10,
             dr_point = tp10, avgHigh = 50, avgLow = 30\<rparr>"
    by (simp add: day_record_def example_targets(1) n nearest_tp10 i d Let_def
        dayIndexInNonLeapYearFromMonthDay_def month_day_def slot_def)
  show "day_record example_app ''NOBO'' jan1 (Fin 8) (Suc 0)
     = Some \<lparr>dr_date = \<lparr>year = 2027, month = 1, day = 2\<rparr>, dr_targetMile = Fin 10,
             dr_point = tp10, avgHigh = 70, avgLow = 20\<rparr>"
    by (simp add: day_record_def t n nearest_tp10 i d Let_def
        dayIndexInNonLeapYearFromMonthDay_def month_day_def slot_def)
  show "day_record example_app ''NOBO'' jan1 (Fin 8) (Suc (Suc 0)) = None"
    by (simp add: day_record_def t n nearest_tp10 i d Let_def
        dayIndexInNonLeapYearFromMonthDay_def month_day_def slot_def)
qed

lemma target_mile_normals [simp]:
  "target_mile (st\<lparr>normalsByPointId := ns\<rparr>) dir mpd i = target_mile st dir mpd i"
  by (simp add: target_mile_def Let_def)

lemma less_3_cases: "i < 3 \<longleftrightarrow> i = 0 \<or> i = Suc 0 \<or> i = Suc (Suc 0)" for i :: nat
  by arith

text \<open>
  C8 on a three-day trip: day 2 (70 and 20) is both the hottest and the coldest day, day 3
  is skipped because its \<open>hi\<close> slot is \<open>null\<close> although its \<open>lo\<close> is the lowest; a trip
  over points without normals shows "unable to compute"; and without any normals the
  status message is shown.
\<close>

theorem C8_witness:
  "computeAndRenderDurationExtremes example_app ''NOBO'' jan1 (Fin 8) 3
     = Shown (Tables \<lparr>dr_date = \<lparr>year = 2027, month = 1, day = 2\<rparr>, dr_targetMile = Fin 10,
                      dr_point = tp10, avgHigh = 70, avgLow = 20\<rparr>
                     \<lparr>dr_date = \<lparr>year = 2027, month = 1, day = 2\<rparr>, dr_targetMile = Fin 10,
                      dr_point = tp10, avgHigh = 70, avgLow = 20\<rparr>)
   \<and> day_record example_app ''NOBO'' jan1 (Fin 8) 2 = None
   \<and> computeAndRenderDurationExtremes
        (example_app\<lparr>normalsByPointId := [(''at-main-mi0020000'', [Some 50], [Some 30])]\<rparr>)
        ''NOBO'' jan1 (Fin 8) 3 = Shown UnableToCompute
   \<and> computeAndRenderDurationExtremes (example_app\<lparr>normalsByPointId := []\<rparr>)
        ''NOBO'' jan1 (Fin 8) 3 = NormalsNotLoaded
   \<and> computeAndRenderDurationExtremes (example_app\<lparr>trailMinMiles := PInf\<rparr>)
        ''NOBO'' jan1 (Fin 8) 3 = PointsStillLoading"
proof -
  let ?R0 = "\<lparr>dr_date = \<lparr>year = 2027, month = 1, day = 1\<rparr>, dr_targetMile = Fin 10,
              dr_point = tp10, avgHigh = 50, avgLow = 30\<rparr>"
  let ?R1 = "\<lparr>dr_date = \<lparr>year = 2027, month = 1, day = 2\<rparr>, dr_targetMile = Fin 10,
              dr_point = tp10, avgHigh = 70, avgLow = 20\<rparr>"
  have g: "normalsByPointId example_app \<noteq> [] \<and> isFinite (trailMinMiles example_app)
      \<and> isFinite (trailMaxMiles example_app) \<and> allPointsSortedByMile example_app \<noteq> []"
    by (simp add: example_app_def)
  have d0: "\<exists>i < 3. day_record example_app ''NOBO'' jan1 (Fin 8) i \<noteq> None"
    using example_days(1) by (auto simp: less_3_cases)
  note ex = C8_extremes [where st = example_app and dir = "''NOBO''" and sd = jan1
      and mpd = "Fin 8" and n = 3, THEN conjunct1, THEN mp, OF g, THEN conjunct2, THEN mp, OF d0]
  then obtain x y i j where
    r: "computeAndRenderDurationExtremes example_app ''NOBO'' jan1 (Fin 8) 3 = Shown (Tables x y)"
    and i: "i < 3" "day_record example_app ''NOBO'' jan1 (Fin 8) i = Some x"
    and hi: "\<forall>j < 3. \<forall>y. day_record example_app ''NOBO'' jan1 (Fin 8) j = Some y
                \<longrightarrow> avgHigh y \<le> avgHigh x"
    and j: "j < 3" "day_record example_app ''NOBO'' jan1 (Fin 8) j = Some y"
    and lo: "\<forall>j < 3. \<forall>z. day_record example_app ''NOBO'' jan1 (Fin 8) j = Some z
                \<longrightarrow> avgLow y \<le> avgLow z"
    by blast
  have one: "Suc 0 < 3" by simp
  from hi one example_days(2) have hi1: "avgHigh ?R1 \<le> avgHigh x" by blast
  from lo one example_days(2) have lo1: "avgLow y \<le> avgLow ?R1" by blast
  from i example_days have "x = ?R0 \<or> x = ?R1" by (auto simp: less_3_cases)
  with hi1 have "x = ?R1" by auto
  from j example_days have "y = ?R0 \<or> y = ?R1" by (auto simp: less_3_cases)
  with lo1 have "y = ?R1" by auto
  note \<open>x = ?R1\<close> \<open>y = ?R1\<close>
  with r have 1: "computeAndRenderDurationExtremes example_app ''NOBO'' jan1 (Fin 8) 3
                    = Shown (Tables ?R1 ?R1)"
    by simp
  have 2: "day_record example_app ''NOBO'' jan1 (Fin 8) 2 = None"
    using example_days(3) by (simp add: numeral_2_eq_2)
  let ?st = "example_app\<lparr>normalsByPointId := [(''at-main-mi0020000'', [Some 50], [Some 30])]\<rparr>"
  have none: "\<forall>i < 3. day_record ?st ''NOBO'' jan1 (Fin 8) i = None"
  proof (intro allI impI)
    fix i :: nat assume "i < 3"
    then have "target_mile ?st ''NOBO'' (Fin 8) i = Fin 10"
      using example_targets
      by (auto simp: less_3_cases numeral_2_eq_2)
    moreover have "allPointsSortedByMile ?st = [tp10]"
      "normalsByPointId ?st = [(''at-main-mi0020000'', [Some 50], [Some 30])]"
      by (simp_all add: example_app_def)
    moreover have "tp_id tp10 = ''at-main-mi0010000''" by (simp add: tp10_def)
    ultimately show "day_record ?st ''NOBO'' jan1 (Fin 8) i = None"
      by (simp add: day_record_def nearest_tp10 Let_def)
  qed
  have g': "normalsByPointId ?st \<noteq> [] \<and> isFinite (trailMinMiles ?st)
      \<and> isFinite (trailMaxMiles ?st) \<and> allPointsSortedByMile ?st \<noteq> []"
    by (simp add: example_app_def)
  note 3 = C8_extremes [where st = ?st and dir = "''NOBO''" and sd = jan1 and mpd = "Fin 8"
      and n = 3, THEN conjunct1, THEN mp, OF g', THEN conjunct1, THEN mp, OF none]
  have 4: "computeAndRenderDurationExtremes (example_app\<lparr>normalsByPointId := []\<rparr>)
             ''NOBO'' jan1 (Fin 8) 3 = NormalsNotLoaded"
    by (rule C8_extremes [where st = "example_app\<lparr>normalsByPointId := []\<rparr>",
          THEN conjunct2, THEN conjunct2, THEN conjunct1, THEN mp]) simp
  have 5: "computeAndRenderDurationExtremes (example_app\<lparr>trailMinMiles := PInf\<rparr>)
             ''NOBO'' jan1 (Fin 8) 3 = PointsStillLoading"
    by (rule C8_extremes [where st = "example_app\<lparr>trailMinMiles := PInf\<rparr>",
          THEN conjunct2, THEN conjunct2, THEN conjunct2, THEN mp])
       (simp add: example_app_def)
  from 1 2 3 4 5 show ?thesis by blast
qed

section \<open>Properties of the normals aggregator\<close>

lemma stored_records_serialize:
  "h_array h = None \<Longrightarrow>
   stored_records (d\<lparr>normals_file := Parsed (serialize_hist h)\<rparr>) = h_points h"
  by (simp add: stored_records_def serialize_hist_def)

lemma process_points_spec:
  assumes "process_points avg net todo n k h d = (out, h', d')"
    and "h_array h = None" and "stored_records d = h_points h"
  shows "\<exists>completed new. subseq completed todo
           \<and> map rec_id new = map (\<lambda>p. IdString (point_id p)) completed
           \<and> h_points h' = h_points h @ new
           \<and> stored_records d' = h_points h'
           \<and> h_array h' = None
           \<and> points_file d' = points_file d
           \<and> (\<forall>c. out = Done c \<longrightarrow> completed = filter valid_coordinates todo \<and> c = k + length completed)
           \<and> (d' = d \<or> (\<exists>m rs. normals_file d' = Parsed (RootObject m rs)))"
  using assms
proof (induction todo arbitrary: n k h d)
  case Nil
  then have "h' = h" "d' = d" "out = Done k" by auto
  with Nil show ?case by (intro exI [of _ "[]"]) simp
next
  case (Cons p ps)
  let ?la = "Number (lat p)" and ?lo = "Number (lon p)"
  show ?case
  proof (cases "valid_coordinates p")
    case False
    then have inv: "\<not> isFinite ?la \<or> \<not> isFinite ?lo" by (simp add: valid_coordinates_def)
    with Cons.prems(1) have "process_points avg net ps n k h d = (out, h', d')"
      by (simp add: Let_def)
    from Cons.IH [OF this Cons.prems(2,3)] obtain completed new where
      c: "subseq completed ps" "map rec_id new = map (\<lambda>p. IdString (point_id p)) completed"
         "h_points h' = h_points h @ new" "stored_records d' = h_points h'"
         "h_array h' = None" "points_file d' = points_file d"
         "\<forall>c. out = Done c \<longrightarrow> completed = filter valid_coordinates ps \<and> c = k + length completed"
         "d' = d \<or> (\<exists>m rs. normals_file d' = Parsed (RootObject m rs))"
      by blast
    from c(1) have "subseq completed (p # ps)" by (rule list_emb_Cons)
    moreover from c(7) False
    have "\<forall>c. out = Done c \<longrightarrow> completed = filter valid_coordinates (p # ps) \<and> c = k + length completed"
      by auto
    ultimately show ?thesis using c(2-6,8) by blast
  next
    case True
    then have valid: "\<not> (\<not> isFinite ?la \<or> \<not> isFinite ?lo)" by (simp add: valid_coordinates_def)
    show ?thesis
    proof (cases "\<exists>dl. fetchDailyMaxMin net n ?la ?lo = Inr (Some dl) \<and> time dl \<noteq> []")
      case False
      with valid Cons.prems(1) have "h' = h \<and> d' = d \<and> (\<exists>e. out = Exited e)"
        by (auto simp: Let_def split: sum.splits option.splits if_splits)
      with Cons.prems show ?thesis by (intro exI [of _ "[]"]) auto
    next
      case ex: True
      then obtain dl where dl: "fetchDailyMaxMin net n ?la ?lo = Inr (Some dl)" "time dl \<noteq> []"
        by blast
      define r where "r = \<lparr>rec_id = IdString (point_id p),
                           rec_legacy_id = (if legacy_id p = Some [] then None else legacy_id p),
                           hi = fst (avg dl), lo = snd (avg dl)\<rparr>"
      define h1 where "h1 = h\<lparr>h_points := h_points h @ [r], h_meta := progress_meta (h_meta h)\<rparr>"
      define d1 where "d1 = d\<lparr>normals_file := Parsed (serialize_hist h1)\<rparr>"
      from valid dl Cons.prems(1) have run: "process_points avg net ps (Suc n) (Suc k) h1 d1 = (out, h', d')"
        by (simp add: Let_def r_def h1_def d1_def)
      from Cons.prems(2) have a1: "h_array h1 = None" by (simp add: h1_def)
      then have s1: "stored_records d1 = h_points h1"
        unfolding d1_def by (rule stored_records_serialize)
      from Cons.IH [OF run a1 s1] obtain completed new where
        c: "subseq completed ps" "map rec_id new = map (\<lambda>p. IdString (point_id p)) completed"
           "h_points h' = h_points h1 @ new" "stored_records d' = h_points h'"
           "h_array h' = None" "points_file d' = points_file d1"
           "\<forall>c. out = Done c \<longrightarrow> completed = filter valid_coordinates ps \<and> c = Suc k + length completed"
           "d' = d1 \<or> (\<exists>m rs. normals_file d' = Parsed (RootObject m rs))"
        by blast
      from c(1) have "subseq (p # completed) (p # ps)" by simp
      moreover from c(2) have "map rec_id (r # new) = map (\<lambda>p. IdString (point_id p)) (p # completed)"
        by (simp add: r_def)
      moreover from c(3) have "h_points h' = h_points h @ (r # new)" by (simp add: h1_def)
      moreover from c(6) have "points_file d' = points_file d" by (simp add: d1_def)
      moreover from c(7) True
      have "\<forall>c. out = Done c \<longrightarrow> p # completed = filter valid_coordinates (p # ps) \<and> c = k + length (p # completed)"
        by auto
      moreover have "d' = d \<or> (\<exists>m rs. normals_file d' = Parsed (RootObject m rs))"
        using c(8) a1 by (auto simp: d1_def serialize_hist_def)
      ultimately show ?thesis using c(4,5) by blast
    qed
  qed
qed

lemma missing_points_append:
  "missing_points ps (rs @ new)
     = filter (\<lambda>p. point_id p \<notin> set (record_ids new)) (missing_points ps rs)"
  by (auto simp: missing_points_def record_ids_def intro: filter_cong)

lemma record_ids_completed:
  "map rec_id new = map (\<lambda>p. IdString (point_id p)) completed \<Longrightarrow>
   record_ids new = map point_id completed"
proof -
  assume "map rec_id new = map (\<lambda>p. IdString (point_id p)) completed"
  then have "map String_id (map rec_id new) = map String_id (map (\<lambda>p. IdString (point_id p)) completed)"
    by simp
  then show ?thesis by (simp add: comp_def record_ids_def)
qed

lemma subseq_imp_subset: "subseq ys xs \<Longrightarrow> set ys \<subseteq> set xs"
  by (induction rule: list_emb.induct) auto

lemma subseq_imp_distinct: "subseq ys xs \<Longrightarrow> distinct xs \<Longrightarrow> distinct ys"
proof (induction rule: list_emb.induct)
  case (list_emb_Cons2 x y xs ys)
  then show ?case using subseq_imp_subset [of xs ys] by auto
qed simp_all

lemma length_filter_subseq:
  "subseq ys xs \<Longrightarrow> distinct (map f xs) \<Longrightarrow>
   length (filter (\<lambda>x. f x \<notin> set (map f ys)) xs) = length xs - length ys"
proof (induction xs arbitrary: ys)
  case Nil
  then show ?case by simp
next
  case (Cons x xs)
  from Cons.prems(2) have d: "distinct (map f xs)" and x: "f x \<notin> f ` set xs" by simp_all
  show ?case
  proof (cases ys)
    case Nil
    then show ?thesis by simp
  next
    case ys: (Cons y ys')
    show ?thesis
    proof (cases "x = y")
      case True
      with Cons.prems(1) ys have sub: "subseq ys' xs" by simp
      have ne: "f z \<noteq> f y" if "z \<in> set xs" for z
        using x True that by (metis imageI)
      have "filter (\<lambda>z. f z \<notin> set (map f ys)) xs = filter (\<lambda>z. f z \<notin> set (map f ys')) xs"
        using ys by (intro filter_cong) (simp_all add: ne)
      with Cons.IH [OF sub d] True ys show ?thesis by simp
    next
      case False
      with Cons.prems(1) ys have sub: "subseq ys xs" by simp
      from subseq_imp_subset [OF sub] x have "f x \<notin> set (map f ys)" by auto
      moreover from sub have "length ys \<le> length xs" by (rule list_emb_length)
      ultimately show ?thesis using Cons.IH [OF sub d] by (simp add: Suc_diff_le)
    qed
  qed
qed

lemma generate_main_spec:
  assumes pf: "points_file d = Parsed (PointsArray ps)"
    and nf: "normals_file d = Parsed (RootObject m r)"
    and run: "generate_main avg net d = (res, d')"
  shows "\<exists>out completed. res = Ran out
           \<and> subseq completed (missing_points ps (stored_records d))
           \<and> record_ids (added_records d d') = map point_id completed
           \<and> stored_records d' = stored_records d @ added_records d d'
           \<and> points_file d' = points_file d
           \<and> (\<exists>m' r'. normals_file d' = Parsed (RootObject m' r'))
           \<and> (\<forall>c. out = Done c \<longrightarrow>
                 completed = filter valid_coordinates (missing_points ps (stored_records d))
                 \<and> c = length completed)"
proof -
  define h where "h = \<lparr>h_array = None,
                       h_meta = (case m of None \<Rightarrow> [] | Some kvs \<Rightarrow> kvs),
                       h_points = (case r of None \<Rightarrow> [] | Some rs \<Rightarrow> rs)\<rparr>"
  have shape: "ensureHistShape (RootObject m r) = Inr h"
    by (simp add: ensureHistShape_def h_def)
  have arr: "h_array h = None" by (simp add: h_def)
  have st: "stored_records d = h_points h"
    using nf by (simp add: stored_records_def h_def split: option.splits)
  obtain out h' d'' where
    pp: "process_points avg net (missing_points ps (h_points h)) 0 0 h d = (out, h', d'')"
    by (cases "process_points avg net (missing_points ps (h_points h)) 0 0 h d") auto
  from run pf nf shape pp have res: "res = Ran out" and d': "d' = d''"
    by (simp_all add: generate_main_def Let_def)
  from process_points_spec [OF pp arr st] obtain completed new where
    c: "subseq completed (missing_points ps (h_points h))"
       "map rec_id new = map (\<lambda>p. IdString (point_id p)) completed"
       "h_points h' = h_points h @ new" "stored_records d'' = h_points h'"
       "points_file d'' = points_file d"
       "\<forall>c. out = Done c \<longrightarrow>
          completed = filter valid_coordinates (missing_points ps (h_points h))
          \<and> c = 0 + length completed"
       "d'' = d \<or> (\<exists>m rs. normals_file d'' = Parsed (RootObject m rs))"
    by blast
  from c(3,4) st d' have added: "added_records d d' = new"
    by (simp add: added_records_def)
  from c(7) nf d' have "\<exists>m' r'. normals_file d' = Parsed (RootObject m' r')" by auto
  moreover from c(2) added have "record_ids (added_records d d') = map point_id completed"
    by (simp add: record_ids_completed)
  moreover from c(3,4) st d' added have "stored_records d' = stored_records d @ added_records d d'"
    by simp
  ultimately show ?thesis using res c(1,5,6) st d' by auto
qed

lemma missing_points_ids:
  "set (map point_id (missing_points ps rs)) \<inter> set (record_ids rs) = {}"
  by (auto simp: missing_points_def record_ids_def)

lemma distinct_missing_points:
  "distinct (map point_id ps) \<Longrightarrow> distinct (map point_id (missing_points ps rs))"
  by (simp add: missing_points_def distinct_map_filter)

lemma record_ids_append [simp]: "record_ids (xs @ ys) = record_ids xs @ record_ids ys"
  by (simp add: record_ids_def)

lemma length_record_ids [simp]: "length (record_ids xs) = length xs"
  by (simp add: record_ids_def)

text \<open>
  On a store that is an object, with distinct point ids: a first run, whatever the
  network does and wherever it stops, only appends records to the store on disk, one
  for each point it completed, taken in order from the points that had no record; the
  points left for the next run are the earlier missing ones without those completed.
  The second run appends behind the records of the first, for points of that list only.
\<close>

lemma resumable_object_store:
  assumes pf: "points_file d0 = Parsed (PointsArray ps)"
    and nf: "normals_file d0 = Parsed (RootObject m0 r0)"
    and dist: "distinct (map point_id ps)"
    and run1: "generate_main avg net1 d0 = (res1, d1)"
    and run2: "generate_main avg net2 d1 = (res2, d2)"
  shows "stored_records d1 = stored_records d0 @ added_records d0 d1
       \<and> subseq (record_ids (added_records d0 d1))
                (map point_id (missing_points ps (stored_records d0)))
       \<and> missing_points ps (stored_records d1)
           = filter (\<lambda>p. point_id p \<notin> set (record_ids (added_records d0 d1)))
                    (missing_points ps (stored_records d0))
       \<and> length (missing_points ps (stored_records d1))
           = length (missing_points ps (stored_records d0)) - length (added_records d0 d1)
       \<and> stored_records d2 = stored_records d0 @ added_records d0 d1 @ added_records d1 d2
       \<and> subseq (record_ids (added_records d1 d2))
                (map point_id (missing_points ps (stored_records d1)))
       \<and> distinct (record_ids (added_records d0 d1 @ added_records d1 d2))
       \<and> set (record_ids (added_records d0 d1 @ added_records d1 d2))
           \<inter> set (record_ids (stored_records d0)) = {}
       \<and> (\<forall>c. res2 = Ran (Done c) \<longrightarrow>
             record_ids (added_records d1 d2)
               = map point_id (filter valid_coordinates (missing_points ps (stored_records d1)))
             \<and> c = length (added_records d1 d2))
       \<and> points_file d2 = points_file d0"
proof -
  let ?m0 = "missing_points ps (stored_records d0)"
  let ?m1 = "missing_points ps (stored_records d1)"
  let ?n1 = "added_records d0 d1" and ?n2 = "added_records d1 d2"
  from generate_main_spec [OF pf nf run1] obtain out1 c1 m1 r1 where
    a: "res1 = Ran out1" "subseq c1 ?m0" "record_ids ?n1 = map point_id c1"
       "stored_records d1 = stored_records d0 @ ?n1" "points_file d1 = points_file d0"
       "normals_file d1 = Parsed (RootObject m1 r1)"
    by blast
  from a(5) pf have pf1: "points_file d1 = Parsed (PointsArray ps)" by simp
  from generate_main_spec [OF pf1 a(6) run2] obtain out2 c2 where
    b: "res2 = Ran out2" "subseq c2 ?m1" "record_ids ?n2 = map point_id c2"
       "stored_records d2 = stored_records d1 @ ?n2" "points_file d2 = points_file d1"
       "\<forall>c. out2 = Done c \<longrightarrow> c2 = filter valid_coordinates ?m1 \<and> c = length c2"
    by blast
  have s1: "subseq (record_ids ?n1) (map point_id ?m0)"
    unfolding a(3) using a(2) by (rule subseq_map)
  have s2: "subseq (record_ids ?n2) (map point_id ?m1)"
    unfolding b(3) using b(2) by (rule subseq_map)
  have m1: "?m1 = filter (\<lambda>p. point_id p \<notin> set (record_ids ?n1)) ?m0"
    by (subst a(4)) (rule missing_points_append)
  have d0: "distinct (map point_id ?m0)" using dist by (rule distinct_missing_points)
  have len: "length ?m1 = length ?m0 - length ?n1"
  proof -
    have "length (filter (\<lambda>p. point_id p \<notin> set (map point_id c1)) ?m0) = length ?m0 - length c1"
      using a(2) d0 by (rule length_filter_subseq)
    moreover have "length c1 = length ?n1"
      using arg_cong [OF a(3), of length] by simp
    ultimately show ?thesis using m1 a(3) by simp
  qed
  have d1: "distinct (map point_id ?m1)" using dist by (rule distinct_missing_points)
  have dn1: "distinct (record_ids ?n1)" using s1 d0 by (rule subseq_imp_distinct)
  have dn2: "distinct (record_ids ?n2)" using s2 d1 by (rule subseq_imp_distinct)
  have sub1: "set (record_ids ?n1) \<subseteq> set (map point_id ?m0)" using s1 by (rule subseq_imp_subset)
  have sub2: "set (record_ids ?n2) \<subseteq> set (map point_id ?m1)" using s2 by (rule subseq_imp_subset)
  have dj1: "set (map point_id ?m1) \<inter> set (record_ids (stored_records d1)) = {}"
    by (rule missing_points_ids)
  have dj0: "set (map point_id ?m0) \<inter> set (record_ids (stored_records d0)) = {}"
    by (rule missing_points_ids)
  have dis: "distinct (record_ids (?n1 @ ?n2))"
    using dn1 dn2 sub2 dj1 a(4) by auto
  have new_old: "set (record_ids (?n1 @ ?n2)) \<inter> set (record_ids (stored_records d0)) = {}"
    using sub1 sub2 dj0 dj1 a(4) by auto
  have complete: "\<forall>c. res2 = Ran (Done c) \<longrightarrow>
             record_ids ?n2 = map point_id (filter valid_coordinates ?m1) \<and> c = length ?n2"
  proof (intro allI impI)
    fix c assume "res2 = Ran (Done c)"
    with b(1) have "out2 = Done c" by simp
    with b(6) have "c2 = filter valid_coordinates ?m1" "c = length c2" by simp_all
    moreover have "length c2 = length ?n2" using arg_cong [OF b(3), of length] by simp
    ultimately show "record_ids ?n2 = map point_id (filter valid_coordinates ?m1) \<and> c = length ?n2"
      using b(3) by simp
  qed
  have all: "stored_records d2 = stored_records d0 @ ?n1 @ ?n2"
    using a(4) b(4) by simp
  have pts: "points_file d2 = points_file d0" using a(5) b(5) by simp
  from a(4) s1 m1 len all s2 dis new_old complete pts show ?thesis by blast
qed

lemmas aggregator_eval =
  generate_main_def store_def array_store_def pointA_def pointB_def pointC_def
  ensureHistShape_def missing_points_def Let_def
  fetchDailyMaxMin_def net_ok_until_def net_ok_def resp_ok_def one_day_def serialize_hist_def
  no_averages_def stored_records_def added_records_def record_ids_def valid_coordinates_def

lemma first_run:
  "generate_main no_averages (net_ok_until 1 500) (store [pointA, pointB, pointC] [])
     = (Ran (Exited (HttpError 500)), after_first)"
  by (simp add: aggregator_eval after_first_def)

lemma second_run:
  "generate_main no_averages net_ok after_first = (Ran (Done 2), after_second)"
  by (simp add: aggregator_eval after_first_def after_second_def)

lemma first_run_array:
  "generate_main no_averages (net_ok_until 1 500) (array_store [pointA, pointB, pointC] [])
     = (Ran (Exited (HttpError 500)), array_store [pointA, pointB, pointC] [])"
  by (simp add: aggregator_eval)

lemma second_run_array:
  "generate_main no_averages net_ok (array_store [pointA, pointB, pointC] [])
     = (Ran (Done 3), array_store [pointA, pointB, pointC] [])"
  by (simp add: aggregator_eval)

text \<open>On a store that is a bare array no run changes the disk.\<close>

lemma process_points_array:
  "h_array h = Some arr \<Longrightarrow> normals_file d = Parsed (RootArray arr) \<Longrightarrow>
   snd (snd (process_points avg net todo n k h d)) = d"
proof (induction todo arbitrary: n k h d)
  case Nil
  then show ?case by simp
next
  case (Cons p ps)
  have w: "d\<lparr>normals_file := Parsed (serialize_hist (h\<lparr>h_points := pts, h_meta := m\<rparr>))\<rparr> = d"
    for pts m
    using Cons.prems by (simp add: serialize_hist_def)
  have a: "h_array (h\<lparr>h_points := pts, h_meta := m\<rparr>) = Some arr" for pts m
    using Cons.prems by simp
  show ?case
    using Cons.IH [OF Cons.prems] Cons.IH [OF a Cons.prems(2)]
    by (simp add: Let_def w split: sum.splits option.splits)
qed

lemma generate_main_array:
  "snd (generate_main avg net (array_store ps arr)) = array_store ps arr"
proof -
  let ?h = "\<lparr>h_array = Some arr, h_meta = [], h_points = []\<rparr>"
  have "snd (snd (process_points avg net (missing_points ps []) 0 0 ?h (array_store ps arr)))
          = array_store ps arr"
    by (rule process_points_array [where arr = arr]) (simp_all add: array_store_def)
  then show ?thesis
    by (simp add: generate_main_def ensureHistShape_def array_store_def split_beta Let_def)
qed

text \<open>
  C6 fails on a store whose root is a bare JSON array. \<open>ensureHistShape\<close> lets the array
  through and hangs \<open>points\<close> on it as a property, which \<open>JSON.stringify\<close> does not write:
  whatever the points, the records in the array and the network, a run leaves the disk
  as it was. On three points and an empty store, a first run stopped at its second
  request has completed one record and persisted none, and the run that follows
  processes all three points, not the two remaining, and again persists nothing. On
  the same store written as an object, the first run leaves its record on the disk and
  the second run completes the two remaining points.
\<close>

theorem C6_bare_array_not_persisted:
  "snd (generate_main avg net (array_store ps arr)) = array_store ps arr
   \<and> generate_main no_averages (net_ok_until 1 500) (array_store [pointA, pointB, pointC] [])
       = (Ran (Exited (HttpError 500)), array_store [pointA, pointB, pointC] [])
   \<and> generate_main no_averages net_ok (array_store [pointA, pointB, pointC] [])
       = (Ran (Done 3), array_store [pointA, pointB, pointC] [])
   \<and> generate_main no_averages (net_ok_until 1 500) (store [pointA, pointB, pointC] [])
       = (Ran (Exited (HttpError 500)), after_first)
   \<and> record_ids (stored_records after_first) = [''GA_0001_0'']
   \<and> generate_main no_averages net_ok after_first = (Ran (Done 2), after_second)
   \<and> record_ids (stored_records after_second) = [''GA_0001_0'', ''GA_0001_1'', ''GA_0002_0'']"
proof -
  have "record_ids (stored_records after_first) = [''GA_0001_0'']"
    by (simp add: aggregator_eval after_first_def)
  moreover have "record_ids (stored_records after_second)
                   = [''GA_0001_0'', ''GA_0001_1'', ''GA_0002_0'']"
    by (simp add: aggregator_eval after_second_def)
  ultimately show ?thesis
    using generate_main_array first_run_array second_run_array first_run second_run
    by simp
qed

section \<open>Properties of the retry policy\<close>

lemma retryable_not_ok: "retryable st \<Longrightarrow> \<not> resp_ok st"
  by (auto simp: retryable_def resp_ok_def)

lemma Math_min_Fin: "Math_min (Fin a) (Fin b) = Fin (min a b)"
  by (simp add: min_def)

lemma backoff_small:
  assumes "a \<le> 8"
  shows "js_mul (Fin 800) (Math_pow2 a) = Fin (800 * 2 ^ a)"
proof -
  from assms have le: "(2::int) ^ a \<le> 2 ^ 8" by (intro power_increasing) simp_all
  then have "\<bar>(2::int) ^ a\<bar> < 2 ^ 53" by simp
  from round_binary64_int [OF this] have p: "Math_pow2 a = Fin (2 ^ a)"
    by (simp add: Math_pow2_def)
  from le have "\<bar>800 * (2::int) ^ a\<bar> < 2 ^ 53" by simp
  from round_binary64_int [OF this] show ?thesis by (simp add: p)
qed

lemma retry_delay_no_hint:
  "ra = None \<or> ra = Some [] \<Longrightarrow>
   retry_delay ra b m a = Math_min (js_mul b (Math_pow2 a)) m"
  by (auto simp: retry_delay_def Let_def)

lemma retry_delay_hint:
  "s \<noteq> [] \<Longrightarrow> js_mul (StringToNumber s) (Fin 1000) = Fin ms \<Longrightarrow> 0 < ms \<Longrightarrow>
   retry_delay (Some s) b m a = Math_min (Fin ms) m"
  by (simp add: retry_delay_def Let_def js_le_def js_eq_def)

lemma retry_delay_bad_hint:
  "\<not> isFinite (js_mul (StringToNumber s) (Fin 1000))
     \<or> js_le (js_mul (StringToNumber s) (Fin 1000)) (Fin 0) \<Longrightarrow>
   retry_delay (Some s) b m a = Math_min (js_mul b (Math_pow2 a)) m"
  by (auto simp: retry_delay_def Let_def)

lemma retry_delay_backoff:
  "a \<le> 8 \<Longrightarrow> retry_delay None (Fin 800) (Fin 20000) a = Fin (min (800 * 2 ^ a) 20000)"
  by (simp add: retry_delay_no_hint backoff_small Math_min_Fin)

lemma retry_delay_bounds:
  assumes "a \<le> 8"
  shows "\<exists>q. retry_delay ra (Fin 800) (Fin 20000) a = Fin q \<and> 0 < q \<and> q \<le> 20000"
proof -
  let ?b = "Math_min (js_mul (Fin 800) (Math_pow2 a)) (Fin 20000)"
  have b: "?b = Fin (min (800 * 2 ^ a) 20000)"
    using assms by (simp add: backoff_small Math_min_Fin)
  have bb: "\<exists>q. ?b = Fin q \<and> 0 < q \<and> q \<le> 20000"
    unfolding b by simp
  show ?thesis
  proof (cases ra)
    case None
    then show ?thesis using bb by (simp add: retry_delay_no_hint)
  next
    case (Some s)
    let ?d = "js_mul (StringToNumber s) (Fin 1000)"
    show ?thesis
    proof (cases "s = [] \<or> \<not> isFinite ?d \<or> js_le ?d (Fin 0)")
      case True
      then have "retry_delay ra (Fin 800) (Fin 20000) a = ?b"
        using Some retry_delay_no_hint [where ra = ra and b = "Fin 800" and m = "Fin 20000" and a = a]
          retry_delay_bad_hint [where s = s and b = "Fin 800" and m = "Fin 20000" and a = a] by auto
      then show ?thesis using bb by simp
    next
      case False
      then obtain ms where ms: "?d = Fin ms" by (cases ?d) auto
      with False have pos: "0 < ms" by (auto simp: js_le_def js_eq_def)
      from False have "s \<noteq> []" by simp
      from retry_delay_hint [OF this ms pos] Some pos show ?thesis
        by (simp add: Math_min_Fin)
    qed
  qed
qed

lemma fetchWithRetry_from_ok:
  "a \<le> mr \<Longrightarrow> att a = Response st ra body \<Longrightarrow> resp_ok st \<Longrightarrow>
   fetchWithRetry_from att mr b m a = (Inr body, [])"
  by (subst fetchWithRetry_from.simps) simp

lemma fetchWithRetry_from_fatal:
  "a \<le> mr \<Longrightarrow> att a = Response st ra body \<Longrightarrow> \<not> resp_ok st \<Longrightarrow>
   \<not> retryable st \<or> a = mr \<Longrightarrow>
   fetchWithRetry_from att mr b m a = (Inl (HttpError st), [])"
  by (subst fetchWithRetry_from.simps) auto

lemma fetchWithRetry_from_retry:
  "a < mr \<Longrightarrow> att a = Response st ra body \<Longrightarrow> retryable st \<Longrightarrow>
   fetchWithRetry_from att mr b m a
     = (fst (fetchWithRetry_from att mr b m (a + 1)),
        retry_delay ra b m a # snd (fetchWithRetry_from att mr b m (a + 1)))"
  by (subst fetchWithRetry_from.simps)
     (simp add: retryable_not_ok Let_def split_beta)

lemma fetchWithRetry_from_rejected:
  "a \<le> mr \<Longrightarrow> att a = Rejected \<Longrightarrow>
   fetchWithRetry_from att mr b m a = (Inl FetchFailed, [])"
  by (subst fetchWithRetry_from.simps) simp

lemma all_retryable:
  assumes "\<forall>i\<le>mr. retryable (sts i)" and "a \<le> mr"
  shows "fetchWithRetry_from (\<lambda>i. Response (sts i) (ras i) (bodies i)) mr b m a
           = (Inl (HttpError (sts mr)), map (\<lambda>i. retry_delay (ras i) b m i) [a..<mr])"
  using assms(2)
proof (induction "mr - a" arbitrary: a)
  case 0
  then have "a = mr" by simp
  moreover from assms(1) have "\<not> resp_ok (sts mr)" by (simp add: retryable_not_ok)
  ultimately show ?case by (simp add: fetchWithRetry_from_fatal)
next
  case (Suc k)
  then have lt: "a < mr" and k: "k = mr - (a + 1)" and le: "a + 1 \<le> mr" by simp_all
  from assms(1) lt have r: "retryable (sts a)" by simp
  from lt have upt: "[a..<mr] = a # [a + 1..<mr]" by (simp add: upt_conv_Cons)
  from Suc.hyps(1) [OF k le]
  have ih: "fetchWithRetry_from (\<lambda>i. Response (sts i) (ras i) (bodies i)) mr b m (Suc a)
              = (Inl (HttpError (sts mr)), map (\<lambda>i. retry_delay (ras i) b m i) [Suc a..<mr])"
    by simp
  show ?case
    by (subst fetchWithRetry_from_retry
          [where att = "\<lambda>i. Response (sts i) (ras i) (bodies i)" and st = "sts a"
             and ra = "ras a" and body = "bodies a", OF lt refl r])
       (simp add: ih upt)
qed

lemma delays_bounded:
  assumes "x \<in> set (snd (fetchWithRetry_from att 8 (Fin 800) (Fin 20000) a))"
  shows "\<exists>q. x = Fin q \<and> 0 < q \<and> q \<le> 20000"
  using assms
proof (induction "8 - a" arbitrary: a)
  case 0
  then have "8 \<le> a" by simp
  then have "snd (fetchWithRetry_from att 8 (Fin 800) (Fin 20000) a) = []"
    by (subst fetchWithRetry_from.simps) (auto split: fetch_outcome.splits)
  with 0 show ?case by simp
next
  case (Suc k)
  then have lt: "a < 8" and k: "k = 8 - (a + 1)" by simp_all
  show ?case
  proof (cases "\<exists>st ra body. att a = Response st ra body \<and> retryable st")
    case False
    then have "snd (fetchWithRetry_from att 8 (Fin 800) (Fin 20000) a) = []"
      by (subst fetchWithRetry_from.simps) (auto split: fetch_outcome.splits)
    with Suc.prems show ?thesis by simp
  next
    case True
    then obtain st ra body where r: "att a = Response st ra body" "retryable st" by blast
    from Suc.prems have "x = retry_delay ra (Fin 800) (Fin 20000) a
        \<or> x \<in> set (snd (fetchWithRetry_from att 8 (Fin 800) (Fin 20000) (a + 1)))"
      by (simp add: fetchWithRetry_from_retry [where att = att, OF lt r])
    then show ?thesis
    proof
      assume "x = retry_delay ra (Fin 800) (Fin 20000) a"
      with retry_delay_bounds [of a ra] lt show ?thesis by simp
    next
      assume "x \<in> set (snd (fetchWithRetry_from att 8 (Fin 800) (Fin 20000) (a + 1)))"
      with Suc.hyps(1) [OF k] show ?thesis by simp
    qed
  qed
qed

lemma process_points_http_error:
  assumes "valid_coordinates p"
    and "net n (Number (lat p)) (Number (lon p)) = Response st ra body"
    and "\<not> resp_ok st"
  shows "process_points avg net (p # ps) n k h d = (Exited (HttpError st), h, d)"
  using assms by (simp add: valid_coordinates_def fetchDailyMaxMin_def Let_def)

lemma resume_fetchWithRetry_from_ok:
  "a \<le> mr \<Longrightarrow> att a = Response st ra body \<Longrightarrow> resp_ok st \<Longrightarrow>
   resume_fetchWithRetry_from att mr a = (Inr body, [])"
  by (subst resume_fetchWithRetry_from.simps) simp

lemma resume_fetchWithRetry_from_fatal:
  "a \<le> mr \<Longrightarrow> att a = Response st ra body \<Longrightarrow> \<not> resp_ok st \<Longrightarrow>
   \<not> retryable st \<or> a = mr \<Longrightarrow>
   resume_fetchWithRetry_from att mr a = (Inl (HttpError st), [])"
  by (subst resume_fetchWithRetry_from.simps) auto

lemma resume_fetchWithRetry_from_retry:
  "a < mr \<Longrightarrow> att a = Response st ra body \<Longrightarrow> retryable st \<Longrightarrow>
   resume_fetchWithRetry_from att mr a
     = (fst (resume_fetchWithRetry_from att mr (a + 1)),
        resume_delay a # snd (resume_fetchWithRetry_from att mr (a + 1)))"
  by (subst resume_fetchWithRetry_from.simps)
     (simp add: retryable_not_ok Let_def split_beta)

lemma resume_fetchWithRetry_from_rejected:
  "a \<le> mr \<Longrightarrow> att a = Rejected \<Longrightarrow>
   resume_fetchWithRetry_from att mr a = (Inl FetchFailed, [])"
  by (subst resume_fetchWithRetry_from.simps) simp

lemma resume_delay_small:
  assumes "a \<le> 8"
  shows "resume_delay a = Fin (min 15000 (1000 * 2 ^ a))"
proof -
  from assms have le: "(2::int) ^ a \<le> 2 ^ 8" by (intro power_increasing) simp_all
  then have "\<bar>(2::int) ^ a\<bar> < 2 ^ 53" by simp
  from round_binary64_int [OF this] have p: "Math_pow2 a = Fin (2 ^ a)"
    by (simp add: Math_pow2_def)
  from le have "\<bar>1000 * (2::int) ^ a\<bar> < 2 ^ 53" by simp
  from round_binary64_int [OF this] show ?thesis
    by (simp add: resume_delay_def p Math_min_Fin)
qed

text \<open>
  C7, as the code has it. In the aggregator (\<open>fetchDailyMaxMin\<close> and the loop of \<open>main\<close>)
  every response that is not 2xx, 429, 502 and 503 included, ends the run at once with
  the store as the last completed record left it. \<open>fetchWithRetry\<close> of the deprecated
  builder returns a 2xx response; throws on a status other than 429, 502, 503 and on the
  last attempt; lets a failed \<open>fetch\<close> through; and otherwise sleeps \<open>retry_delay\<close> and tries
  again, so that a server that keeps answering with such a status gets
  \<open>maxRetries + 1\<close> requests and then the error. The delay is the \<open>Retry-After\<close> seconds
  times 1000 when that is a positive finite number, and \<open>baseDelayMs * 2^attempt\<close> when
  there is no header, an empty one, or one that gives no positive finite number; both
  capped at \<open>maxDelayMs\<close>. With the default settings it is \<open>min (800 * 2^attempt) 20000\<close>
  without a header, and every delay slept lies in \<open>(0, 20000]\<close>. \<open>fetchWithRetry\<close> of the
  deprecated resume script is the same loop with the delay
  \<open>min 15000 (1000 * 2^attempt)\<close>, whatever the \<open>Retry-After\<close> header says.
\<close>

theorem C7_retry_policy:
  "(valid_coordinates p \<and> net n (Number (lat p)) (Number (lon p)) = Response st ra body
      \<and> \<not> resp_ok st
     \<longrightarrow> process_points avg net (p # ps) n k h d = (Exited (HttpError st), h, d))
   \<and> (a \<le> mr \<and> att a = Response st ra body \<and> resp_ok st
     \<longrightarrow> fetchWithRetry_from att mr b m a = (Inr body, []))
   \<and> (a \<le> mr \<and> att a = Response st ra body \<and> \<not> resp_ok st \<and> (\<not> retryable st \<or> a = mr)
     \<longrightarrow> fetchWithRetry_from att mr b m a = (Inl (HttpError st), []))
   \<and> (a < mr \<and> att a = Response st ra body \<and> retryable st
     \<longrightarrow> fetchWithRetry_from att mr b m a
           = (fst (fetchWithRetry_from att mr b m (a + 1)),
              retry_delay ra b m a # snd (fetchWithRetry_from att mr b m (a + 1))))
   \<and> ((\<forall>i\<le>mr. retryable (sts i))
     \<longrightarrow> fetchWithRetry_from (\<lambda>i. Response (sts i) (ras i) (bodies i)) mr b m 0
           = (Inl (HttpError (sts mr)), map (\<lambda>i. retry_delay (ras i) b m i) [0..<mr]))
   \<and> (ra = None \<or> ra = Some []
     \<longrightarrow> retry_delay ra b m a = Math_min (js_mul b (Math_pow2 a)) m)
   \<and> (s \<noteq> [] \<and> js_mul (StringToNumber s) (Fin 1000) = Fin ms \<and> 0 < ms
     \<longrightarrow> retry_delay (Some s) b m a = Math_min (Fin ms) m)
   \<and> (a \<le> 8
     \<longrightarrow> retry_delay None (Fin 800) (Fin 20000) a = Fin (min (800 * 2 ^ a) 20000))
   \<and> (x \<in> set (snd (fetchWithRetry att))
     \<longrightarrow> js_lt (Fin 0) x \<and> js_le x (Fin 20000))
   \<and> (\<not> isFinite (js_mul (StringToNumber s) (Fin 1000))
        \<or> js_le (js_mul (StringToNumber s) (Fin 1000)) (Fin 0)
     \<longrightarrow> retry_delay (Some s) b m a = Math_min (js_mul b (Math_pow2 a)) m)
   \<and> (a \<le> mr \<and> att a = Rejected
     \<longrightarrow> fetchWithRetry_from att mr b m a = (Inl FetchFailed, []))
   \<and> (a \<le> mr \<and> att a = Response st ra body \<and> resp_ok st
     \<longrightarrow> resume_fetchWithRetry_from att mr a = (Inr body, []))
   \<and> (a \<le> mr \<and> att a = Response st ra body \<and> \<not> resp_ok st \<and> (\<not> retryable st \<or> a = mr)
     \<longrightarrow> resume_fetchWithRetry_from att mr a = (Inl (HttpError st), []))
   \<and> (a < mr \<and> att a = Response st ra body \<and> retryable st
     \<longrightarrow> resume_fetchWithRetry_from att mr a
           = (fst (resume_fetchWithRetry_from att mr (a + 1)),
              resume_delay a # snd (resume_fetchWithRetry_from att mr (a + 1))))
   \<and> (a \<le> mr \<and> att a = Rejected
     \<longrightarrow> resume_fetchWithRetry_from att mr a = (Inl FetchFailed, []))
   \<and> (a \<le> 8 \<longrightarrow> resume_delay a = Fin (min 15000 (1000 * 2 ^ a)))
   \<and> (net n la lo' = Response st ra body \<and> \<not> resp_ok st
     \<longrightarrow> fetchDailyMaxMin net n la lo' = Inl (HttpError st))
   \<and> (points_file d = Parsed (PointsArray points) \<and> normals_file d = Parsed nroot
        \<and> ensureHistShape nroot = Inr hs \<and> missing_points points (h_points hs) = p # ps
        \<and> valid_coordinates p
        \<and> net 0 (Number (lat p)) (Number (lon p)) = Response st ra body \<and> \<not> resp_ok st
     \<longrightarrow> generate_main avg net d = (Ran (Exited (HttpError st)), d))
   \<and> fetchWithRetry att = fetchWithRetry_from att 8 (Fin 800) (Fin 20000) 0
   \<and> resume_fetchWithRetry att = resume_fetchWithRetry_from att 8 0
   \<and> retryable st = (st = 429 \<or> st = 502 \<or> st = 503)"
proof (intro conjI impI)
  assume "valid_coordinates p \<and> net n (Number (lat p)) (Number (lon p)) = Response st ra body
      \<and> \<not> resp_ok st"
  then show "process_points avg net (p # ps) n k h d = (Exited (HttpError st), h, d)"
    using process_points_http_error [where p = p and net = net and n = n and st = st
        and ra = ra and body = body] by blast
next
  assume "a \<le> mr \<and> att a = Response st ra body \<and> resp_ok st"
  then show "fetchWithRetry_from att mr b m a = (Inr body, [])"
    by (simp add: fetchWithRetry_from_ok [where st = st and ra = ra])
next
  assume "a \<le> mr \<and> att a = Response st ra body \<and> \<not> resp_ok st \<and> (\<not> retryable st \<or> a = mr)"
  then show "fetchWithRetry_from att mr b m a = (Inl (HttpError st), [])"
    using fetchWithRetry_from_fatal [where att = att and a = a and mr = mr and st = st
        and ra = ra and body = body and b = b and m = m] by blast
next
  assume "a < mr \<and> att a = Response st ra body \<and> retryable st"
  then show "fetchWithRetry_from att mr b m a
           = (fst (fetchWithRetry_from att mr b m (a + 1)),
              retry_delay ra b m a # snd (fetchWithRetry_from att mr b m (a + 1)))"
    using fetchWithRetry_from_retry [where att = att and a = a and mr = mr and st = st
        and ra = ra and body = body and b = b and m = m] by blast
next
  assume "\<forall>i\<le>mr. retryable (sts i)"
  then show "fetchWithRetry_from (\<lambda>i. Response (sts i) (ras i) (bodies i)) mr b m 0
           = (Inl (HttpError (sts mr)), map (\<lambda>i. retry_delay (ras i) b m i) [0..<mr])"
    by (rule all_retryable) simp
next
  assume "ra = None \<or> ra = Some []"
  then show "retry_delay ra b m a = Math_min (js_mul b (Math_pow2 a)) m"
    by (rule retry_delay_no_hint)
next
  assume "s \<noteq> [] \<and> js_mul (StringToNumber s) (Fin 1000) = Fin ms \<and> 0 < ms"
  then show "retry_delay (Some s) b m a = Math_min (Fin ms) m"
    by (simp add: retry_delay_hint)
next
  assume "a \<le> 8"
  then show "retry_delay None (Fin 800) (Fin 20000) a = Fin (min (800 * 2 ^ a) 20000)"
    by (rule retry_delay_backoff)
next
  assume "x \<in> set (snd (fetchWithRetry att))"
  then obtain q where "x = Fin q" "0 < q" "q \<le> 20000"
    unfolding fetchWithRetry_def using delays_bounded by blast
  then show "js_lt (Fin 0) x" and "js_le x (Fin 20000)"
    by (auto simp: js_le_def js_eq_def)
next
  assume "\<not> isFinite (js_mul (StringToNumber s) (Fin 1000))
        \<or> js_le (js_mul (StringToNumber s) (Fin 1000)) (Fin 0)"
  then show "retry_delay (Some s) b m a = Math_min (js_mul b (Math_pow2 a)) m"
    by (rule retry_delay_bad_hint)
next
  assume "a \<le> mr \<and> att a = Rejected"
  then show "fetchWithRetry_from att mr b m a = (Inl FetchFailed, [])"
    by (simp add: fetchWithRetry_from_rejected)
next
  assume "a \<le> mr \<and> att a = Response st ra body \<and> resp_ok st"
  then show "resume_fetchWithRetry_from att mr a = (Inr body, [])"
    by (simp add: resume_fetchWithRetry_from_ok [where st = st and ra = ra])
next
  assume "a \<le> mr \<and> att a = Response st ra body \<and> \<not> resp_ok st \<and> (\<not> retryable st \<or> a = mr)"
  then show "resume_fetchWithRetry_from att mr a = (Inl (HttpError st), [])"
    using resume_fetchWithRetry_from_fatal [where att = att and a = a and mr = mr and st = st
        and ra = ra and body = body] by blast
next
  assume "a < mr \<and> att a = Response st ra body \<and> retryable st"
  then show "resume_fetchWithRetry_from att mr a
           = (fst (resume_fetchWithRetry_from att mr (a + 1)),
              resume_delay a # snd (resume_fetchWithRetry_from att mr (a + 1)))"
    using resume_fetchWithRetry_from_retry [where att = att and a = a and mr = mr and st = st
        and ra = ra and body = body] by blast
next
  assume "a \<le> mr \<and> att a = Rejected"
  then show "resume_fetchWithRetry_from att mr a = (Inl FetchFailed, [])"
    by (simp add: resume_fetchWithRetry_from_rejected)
next
  assume "a \<le> 8"
  then show "resume_delay a = Fin (min 15000 (1000 * 2 ^ a))"
    by (rule resume_delay_small)
next
  assume "net n la lo' = Response st ra body \<and> \<not> resp_ok st"
  then show "fetchDailyMaxMin net n la lo' = Inl (HttpError st)"
    by (simp add: fetchDailyMaxMin_def)
next
  assume a: "points_file d = Parsed (PointsArray points) \<and> normals_file d = Parsed nroot
        \<and> ensureHistShape nroot = Inr hs \<and> missing_points points (h_points hs) = p # ps
        \<and> valid_coordinates p
        \<and> net 0 (Number (lat p)) (Number (lon p)) = Response st ra body \<and> \<not> resp_ok st"
  then have "process_points avg net (p # ps) 0 0 hs d = (Exited (HttpError st), hs, d)"
    using process_points_http_error [where p = p and net = net and n = 0 and st = st
        and ra = ra and body = body] by blast
  with a show "generate_main avg net d = (Ran (Exited (HttpError st)), d)"
    by (simp add: generate_main_def Let_def)
next
  show "fetchWithRetry att = fetchWithRetry_from att 8 (Fin 800) (Fin 20000) 0"
    by (rule fetchWithRetry_def)
next
  show "resume_fetchWithRetry att = resume_fetchWithRetry_from att 8 0"
    by (rule resume_fetchWithRetry_def)
next
  show "retryable st = (st = 429 \<or> st = 502 \<or> st = 503)"
    by (rule retryable_def)
qed

lemmas string_number_eval =
  StringToNumber_def trim_def is_ws_def parse_nondecimal_def parse_unsigned_decimal_def
  is_digit_def parse_exponent_def digits_val_def digit_val_def pow10_def

lemma hint_seconds:
  "js_mul (StringToNumber ''2'') (Fin 1000) = Fin 2000"
  "js_mul (StringToNumber ''60'') (Fin 1000) = Fin 60000"
  by (simp_all add: string_number_eval round_binary64_numeral)

lemma hint_no_number: "js_mul (StringToNumber ''soon'') (Fin 1000) = NaN"
  by (simp add: string_number_eval)

text \<open>
  C7, at a network that answers the first request with 429 and \<open>Retry-After: 1\<close> and
  would answer every later one: the aggregator makes no second request and exits with
  the HTTP error.
\<close>

theorem C7_counterexample:
  "generate_main no_averages (net_fail_first 429 (Some ''1'')) (store [pointA] [])
     = (Ran (Exited (HttpError 429)), store [pointA] [])"
  by (simp add: generate_main_def store_def pointA_def ensureHistShape_def missing_points_def
      Let_def fetchDailyMaxMin_def net_fail_first_def resp_ok_def)

lemma backoff_delays:
  "map (\<lambda>i. retry_delay None (Fin 800) (Fin 20000) i) [0..<8]
     = [Fin 800, Fin 1600, Fin 3200, Fin 6400, Fin 12800, Fin 20000, Fin 20000, Fin 20000]"
proof -
  have "[0..<8] = [0, 1, 2, 3, 4, 5, 6, 7::nat]"
    by (simp add: upt_conv_Cons)
  then show ?thesis by (simp add: retry_delay_backoff)
qed

text \<open>
  C7 on examples: a 429 in the aggregator; a server always answering 429, then one always
  answering 404, then one answering 503 with \<open>Retry-After: 2\<close> once, under
  \<open>fetchWithRetry\<close>; a \<open>Retry-After\<close> of 60 seconds capped at 20000 ms and one that is no
  number; a failed \<open>fetch\<close>; and the 503 with \<open>Retry-After: 2\<close> under the resume script,
  which sleeps 1000 ms.
\<close>

theorem C7_witness:
  "process_points no_averages (net_fail_first 429 (Some ''1'')) [pointA] 0 0
       \<lparr>h_array = None, h_meta = [], h_points = []\<rparr> (store [pointA] [])
     = (Exited (HttpError 429), \<lparr>h_array = None, h_meta = [], h_points = []\<rparr>, store [pointA] [])
   \<and> fetchWithRetry (\<lambda>i. Response 429 None None)
     = (Inl (HttpError 429),
        [Fin 800, Fin 1600, Fin 3200, Fin 6400, Fin 12800, Fin 20000, Fin 20000, Fin 20000])
   \<and> fetchWithRetry (\<lambda>i. Response 404 None None) = (Inl (HttpError 404), [])
   \<and> fetchWithRetry (\<lambda>i. if i = 0 then Response 503 (Some ''2'') None
                            else Response 200 None (Some None))
     = (Inr (Some None), [Fin 2000])
   \<and> retry_delay (Some ''60'') (Fin 800) (Fin 20000) 0 = Fin 20000
   \<and> retry_delay None (Fin 800) (Fin 20000) 4 = Fin 12800
   \<and> js_lt (Fin 0) (Fin 800) \<and> js_le (Fin 800) (Fin 20000)
   \<and> retry_delay (Some ''soon'') (Fin 800) (Fin 20000) 3 = Fin 6400
   \<and> fetchWithRetry (\<lambda>i. Rejected) = (Inl FetchFailed, [])
   \<and> resume_fetchWithRetry (\<lambda>i. if i = 0 then Response 503 (Some ''2'') None
                                   else Response 200 None (Some None))
     = (Inr (Some None), [Fin 1000])
   \<and> resume_fetchWithRetry (\<lambda>i. Response 404 None None) = (Inl (HttpError 404), [])
   \<and> resume_fetchWithRetry (\<lambda>i. Rejected) = (Inl FetchFailed, [])
   \<and> fetchDailyMaxMin (net_fail_first 502 None) 0 (Fin 35) (Fin (- 83)) = Inl (HttpError 502)
   \<and> generate_main no_averages (net_fail_first 502 None) (store [pointC] [])
       = (Ran (Exited (HttpError 502)), store [pointC] [])
   \<and> retryable 502"
proof -
  let ?h = "\<lparr>h_array = None, h_meta = [], h_points = []\<rparr>"
  let ?busy = "\<lambda>i::nat. Response 429 None None"
  let ?gone = "\<lambda>i::nat. Response 404 None None"
  let ?once = "\<lambda>i::nat. if i = 0 then Response 503 (Some ''2'') None
                          else Response 200 None (Some None)"
  have w1: "process_points no_averages (net_fail_first 429 (Some ''1'')) [pointA] 0 0 ?h
              (store [pointA] []) = (Exited (HttpError 429), ?h, store [pointA] [])"
    by (rule C7_retry_policy [where p = pointA and net = "net_fail_first 429 (Some ''1'')"
          and n = 0 and st = 429 and ra = "Some ''1''" and body = None and ps = "[]",
          THEN conjunct1, THEN mp])
       (simp add: valid_coordinates_def pointA_def net_fail_first_def resp_ok_def)
  have "fetchWithRetry_from ?busy 8 (Fin 800) (Fin 20000) 0
          = (Inl (HttpError 429), map (\<lambda>i. retry_delay None (Fin 800) (Fin 20000) i) [0..<8])"
    by (rule C7_retry_policy [where sts = "\<lambda>i. 429" and ras = "\<lambda>i. None"
          and bodies = "\<lambda>i. None" and mr = 8 and b = "Fin 800" and m = "Fin 20000",
          THEN conjunct2, THEN conjunct2, THEN conjunct2, THEN conjunct2,
          THEN conjunct1, THEN mp])
       (simp add: retryable_def)
  then have w2: "fetchWithRetry ?busy
     = (Inl (HttpError 429),
        [Fin 800, Fin 1600, Fin 3200, Fin 6400, Fin 12800, Fin 20000, Fin 20000, Fin 20000])"
    by (simp only: fetchWithRetry_def backoff_delays)
  have "fetchWithRetry_from ?gone 8 (Fin 800) (Fin 20000) 0 = (Inl (HttpError 404), [])"
    by (rule C7_retry_policy [where att = ?gone and a = 0 and mr = 8 and st = 404
          and ra = None and body = None,
          THEN conjunct2, THEN conjunct2, THEN conjunct1, THEN mp])
       (simp add: retryable_def resp_ok_def)
  then have w3: "fetchWithRetry ?gone = (Inl (HttpError 404), [])"
    by (simp only: fetchWithRetry_def)
  have ok: "fetchWithRetry_from ?once 8 (Fin 800) (Fin 20000) 1 = (Inr (Some None), [])"
    by (rule C7_retry_policy [where att = ?once and a = 1 and mr = 8 and st = 200
          and ra = None and body = "Some None",
          THEN conjunct2, THEN conjunct1, THEN mp])
       (simp add: resp_ok_def)
  have d2: "retry_delay (Some ''2'') (Fin 800) (Fin 20000) 0 = Math_min (Fin 2000) (Fin 20000)"
    by (rule C7_retry_policy [where s = "''2''" and ms = 2000,
          THEN conjunct2, THEN conjunct2, THEN conjunct2, THEN conjunct2,
          THEN conjunct2, THEN conjunct2, THEN conjunct1, THEN mp])
       (simp add: hint_seconds)
  have "fetchWithRetry_from ?once 8 (Fin 800) (Fin 20000) 0
          = (fst (fetchWithRetry_from ?once 8 (Fin 800) (Fin 20000) (0 + 1)),
             retry_delay (Some ''2'') (Fin 800) (Fin 20000) 0
               # snd (fetchWithRetry_from ?once 8 (Fin 800) (Fin 20000) (0 + 1)))"
    by (rule C7_retry_policy [where att = ?once and a = 0 and mr = 8 and st = 503
          and ra = "Some ''2''" and body = None,
          THEN conjunct2, THEN conjunct2, THEN conjunct2, THEN conjunct1, THEN mp])
       (simp add: retryable_def)
  then have w4: "fetchWithRetry ?once = (Inr (Some None), [Fin 2000])"
    using ok d2 by (simp add: fetchWithRetry_def Math_min_Fin)
  have "retry_delay (Some ''60'') (Fin 800) (Fin 20000) 0 = Math_min (Fin 60000) (Fin 20000)"
    by (rule C7_retry_policy [where s = "''60''" and ms = 60000,
          THEN conjunct2, THEN conjunct2, THEN conjunct2, THEN conjunct2,
          THEN conjunct2, THEN conjunct2, THEN conjunct1, THEN mp])
       (simp add: hint_seconds)
  then have w5: "retry_delay (Some ''60'') (Fin 800) (Fin 20000) 0 = Fin 20000"
    by (simp add: Math_min_Fin)
  have "retry_delay None (Fin 800) (Fin 20000) 4 = Fin (min (800 * 2 ^ 4) 20000)"
    by (rule C7_retry_policy [where a = 4,
          THEN conjunct2, THEN conjunct2, THEN conjunct2, THEN conjunct2,
          THEN conjunct2, THEN conjunct2, THEN conjunct2, THEN conjunct1, THEN mp])
       simp
  then have w6: "retry_delay None (Fin 800) (Fin 20000) 4 = Fin 12800"
    by simp
  have w7: "js_lt (Fin 0) (Fin 800) \<and> js_le (Fin 800) (Fin 20000)"
    by (rule C7_retry_policy [where att = ?busy and x = "Fin 800",
          THEN conjunct2, THEN conjunct2, THEN conjunct2, THEN conjunct2,
          THEN conjunct2, THEN conjunct2, THEN conjunct2, THEN conjunct2,
          THEN conjunct1, THEN mp])
       (simp add: w2)
  have "retry_delay (Some ''soon'') (Fin 800) (Fin 20000) 3
          = Math_min (js_mul (Fin 800) (Math_pow2 3)) (Fin 20000)"
    by (rule C7_retry_policy [where s = "''soon''",
          THEN conjunct2, THEN conjunct2, THEN conjunct2, THEN conjunct2,
          THEN conjunct2, THEN conjunct2, THEN conjunct2, THEN conjunct2,
          THEN conjunct2, THEN conjunct1, THEN mp])
       (simp add: hint_no_number)
  then have w8: "retry_delay (Some ''soon'') (Fin 800) (Fin 20000) 3 = Fin 6400"
    by (simp add: backoff_small Math_min_Fin)
  have "fetchWithRetry_from (\<lambda>i. Rejected) 8 (Fin 800) (Fin 20000) 0 = (Inl FetchFailed, [])"
    by (rule C7_retry_policy [where att = "\<lambda>i. Rejected" and a = 0 and mr = 8,
          THEN conjunct2, THEN conjunct2, THEN conjunct2, THEN conjunct2,
          THEN conjunct2, THEN conjunct2, THEN conjunct2, THEN conjunct2,
          THEN conjunct2, THEN conjunct2, THEN conjunct1, THEN mp])
       simp
  then have w9: "fetchWithRetry (\<lambda>i. Rejected) = (Inl FetchFailed, [])"
    by (simp only: fetchWithRetry_def)
  have rok: "resume_fetchWithRetry_from ?once 8 1 = (Inr (Some None), [])"
    by (rule C7_retry_policy [where att = ?once and a = 1 and mr = 8 and st = 200
          and ra = None and body = "Some None",
          THEN conjunct2, THEN conjunct2, THEN conjunct2, THEN conjunct2,
          THEN conjunct2, THEN conjunct2, THEN conjunct2, THEN conjunct2,
          THEN conjunct2, THEN conjunct2, THEN conjunct2, THEN conjunct1, THEN mp])
       (simp add: resp_ok_def)
  have rd: "resume_delay 0 = Fin (min 15000 (1000 * 2 ^ 0))"
    by (rule C7_retry_policy [where a = 0,
          THEN conjunct2, THEN conjunct2, THEN conjunct2, THEN conjunct2,
          THEN conjunct2, THEN conjunct2, THEN conjunct2, THEN conjunct2,
          THEN conjunct2, THEN conjunct2, THEN conjunct2, THEN conjunct2,
          THEN conjunct2, THEN conjunct2, THEN conjunct2, THEN conjunct1, THEN mp])
       simp
  have "resume_fetchWithRetry_from ?once 8 0
          = (fst (resume_fetchWithRetry_from ?once 8 (0 + 1)),
             resume_delay 0 # snd (resume_fetchWithRetry_from ?once 8 (0 + 1)))"
    by (rule C7_retry_policy [where att = ?once and a = 0 and mr = 8 and st = 503
          and ra = "Some ''2''" and body = None,
          THEN conjunct2, THEN conjunct2, THEN conjunct2, THEN conjunct2,
          THEN conjunct2, THEN conjunct2, THEN conjunct2, THEN conjunct2,
          THEN conjunct2, THEN conjunct2, THEN conjunct2, THEN conjunct2,
          THEN conjunct2, THEN conjunct1, THEN mp])
       (simp add: retryable_def)
  then have w10: "resume_fetchWithRetry ?once = (Inr (Some None), [Fin 1000])"
    using rok rd by (simp add: resume_fetchWithRetry_def)
  have "resume_fetchWithRetry_from ?gone 8 0 = (Inl (HttpError 404), [])"
    by (rule C7_retry_policy [where att = ?gone and a = 0 and mr = 8 and st = 404
          and ra = None and body = None,
          THEN conjunct2, THEN conjunct2, THEN conjunct2, THEN conjunct2,
          THEN conjunct2, THEN conjunct2, THEN conjunct2, THEN conjunct2,
          THEN conjunct2, THEN conjunct2, THEN conjunct2, THEN conjunct2,
          THEN conjunct1, THEN mp])
       (simp add: retryable_def resp_ok_def)
  then have w11: "resume_fetchWithRetry ?gone = (Inl (HttpError 404), [])"
    by (simp only: resume_fetchWithRetry_def)
  have "resume_fetchWithRetry_from (\<lambda>i. Rejected) 8 0 = (Inl FetchFailed, [])"
    by (rule C7_retry_policy [where att = "\<lambda>i. Rejected" and a = 0 and mr = 8,
          THEN conjunct2, THEN conjunct2, THEN conjunct2, THEN conjunct2,
          THEN conjunct2, THEN conjunct2, THEN conjunct2, THEN conjunct2,
          THEN conjunct2, THEN conjunct2, THEN conjunct2, THEN conjunct2,
          THEN conjunct2, THEN conjunct2, THEN conjunct1, THEN mp])
       simp
  then have w12: "resume_fetchWithRetry (\<lambda>i. Rejected) = (Inl FetchFailed, [])"
    by (simp only: resume_fetchWithRetry_def)
  have w13: "fetchDailyMaxMin (net_fail_first 502 None) 0 (Fin 35) (Fin (- 83)) = Inl (HttpError 502)"
    by (rule C7_retry_policy [where net = "net_fail_first 502 None" and n = 0 and st = 502
          and ra = None and body = None,
          THEN conjunct2, THEN conjunct2, THEN conjunct2, THEN conjunct2,
          THEN conjunct2, THEN conjunct2, THEN conjunct2, THEN conjunct2,
          THEN conjunct2, THEN conjunct2, THEN conjunct2, THEN conjunct2,
          THEN conjunct2, THEN conjunct2, THEN conjunct2, THEN conjunct2,
          THEN conjunct1, THEN mp])
       (simp add: net_fail_first_def resp_ok_def)
  have w14: "generate_main no_averages (net_fail_first 502 None) (store [pointC] [])
       = (Ran (Exited (HttpError 502)), store [pointC] [])"
    by (rule C7_retry_policy [where net = "net_fail_first 502 None" and st = 502
          and ra = None and body = None and d = "store [pointC] []" and points = "[pointC]"
          and nroot = "RootObject None (Some [])" and p = pointC and ps = "[]"
          and hs = "\<lparr>h_array = None, h_meta = [], h_points = []\<rparr>",
          THEN conjunct2, THEN conjunct2, THEN conjunct2, THEN conjunct2,
          THEN conjunct2, THEN conjunct2, THEN conjunct2, THEN conjunct2,
          THEN conjunct2, THEN conjunct2, THEN conjunct2, THEN conjunct2,
          THEN conjunct2, THEN conjunct2, THEN conjunct2, THEN conjunct2,
          THEN conjunct2, THEN conjunct1, THEN mp])
       (simp add: store_def ensureHistShape_def missing_points_def valid_coordinates_def
          pointC_def net_fail_first_def resp_ok_def)
  have w15: "retryable 502"
    using C7_retry_policy [where st = 502] by simp
  from w1 w2 w3 w4 w5 w6 w7 w8 w9 w10 w11 w12 w13 w14 w15 show ?thesis by blast
qed

end
